theory Spec2Isabelle
  imports Complex_Main
begin

chapter \<open>The image generator's core: prompt validation, rate limiting, generation, storage\<close>

text \<open>
  A shallow embedding of \<^verbatim>\<open>src/app.py\<close>: the functions \<^verbatim>\<open>validate_prompt\<close>,
  \<^verbatim>\<open>check_rate_limit\<close>, \<^verbatim>\<open>generate_image\<close>, \<^verbatim>\<open>save_image\<close>, \<^verbatim>\<open>delete_image\<close>,
  \<^verbatim>\<open>load_image\<close>, \<^verbatim>\<open>get_image_base64\<close> and the evaluation report computed in
  \<^verbatim>\<open>main\<close>. Everything a function does beyond returning a value is explicit: the
  Streamlit session, the file system and the table are passed in and returned, exceptions
  are values of \<open>py_error\<close>, and the visible effects (messages shown with
  \<^verbatim>\<open>st.error\<close>, sleeps, HTTP requests) are returned as a list in the order they
  happen. Calls to \<^verbatim>\<open>logging\<close> and \<^verbatim>\<open>st.spinner\<close> change no result and are left out.
\<close>

section \<open>Strings, errors and effects\<close>

text \<open>
  A Python \<^verbatim>\<open>str\<close> whose characters matter (the prompt) is a list of Unicode code
  points, so that \<open>length\<close> counts what \<^verbatim>\<open>len\<close> counts and whitespace is Python's.
  Paths, message texts and file contents are HOL strings.
\<close>

type_synonym ustr = "nat list"

datatype py_error =
  AttributeError | NameError | IsADirectoryError | NotADirectoryError | FileNotFoundError
  | UnidentifiedImageError | RequestException

text \<open>
  \<open>StError m\<close>: \<^verbatim>\<open>st.error(m)\<close>; \<open>Sleep n\<close>: \<^verbatim>\<open>time.sleep(n)\<close>;
  \<open>HttpPost url auth inputs\<close>: one \<^verbatim>\<open>requests.post\<close> to \<open>url\<close> with the
  Authorization header \<open>auth\<close> and the JSON body \<^verbatim>\<open>{"inputs": inputs}\<close>.
\<close>

datatype effect =
  StError string
  | Sleep nat
  | HttpPost string string ustr

text \<open>
  \<^verbatim>\<open>str.isspace\<close> for one character, as CPython defines it: the code points U+0009 to
  U+000D, U+001C to U+0020, U+0085, U+00A0, U+1680, U+2000 to U+200A, U+2028, U+2029,
  U+202F, U+205F and U+3000.
\<close>

definition isspace :: "nat \<Rightarrow> bool" where
  "isspace c \<longleftrightarrow>
     (9 \<le> c \<and> c \<le> 13) \<or> (28 \<le> c \<and> c \<le> 32) \<or> c = 133 \<or> c = 160 \<or> c = 5760 \<or>
     (8192 \<le> c \<and> c \<le> 8202) \<or> c = 8232 \<or> c = 8233 \<or> c = 8239 \<or> c = 8287 \<or> c = 12288"

text \<open>\<^verbatim>\<open>s.lstrip()\<close>, \<^verbatim>\<open>s.rstrip()\<close> and \<^verbatim>\<open>s.strip()\<close> without arguments.\<close>

definition lstrip :: "ustr \<Rightarrow> ustr" where
  "lstrip s = dropWhile isspace s"

definition rstrip :: "ustr \<Rightarrow> ustr" where
  "rstrip s = rev (dropWhile isspace (rev s))"

definition strip :: "ustr \<Rightarrow> ustr" where
  "strip s = rstrip (lstrip s)"

text \<open>
  \<^verbatim>\<open>s.split()\<close> without arguments: skip whitespace, take the characters up to the next
  whitespace as a word, and go on behind it; no empty word is ever produced.
\<close>

function split_ws :: "ustr \<Rightarrow> ustr list" where
  "split_ws s =
     (let t = dropWhile isspace s
      in if t = [] then []
         else takeWhile (\<lambda>c. \<not> isspace c) t # split_ws (dropWhile (\<lambda>c. \<not> isspace c) t))"
  by pat_completeness auto
termination
proof (relation "measure length")
  show "wf (measure length)" by simp
next
  fix s t :: ustr
  assume t: "t = dropWhile isspace s" and ne: "t \<noteq> []"
  from ne obtain c cs where tc: "t = c # cs" by (cases t) auto
  with t have "\<not> isspace c" by (metis hd_dropWhile list.sel(1) ne)
  then have "length (dropWhile (\<lambda>c. \<not> isspace c) t) \<le> length cs"
    using tc by (simp add: length_dropWhile_le)
  moreover have "length t \<le> length s" using t by (simp add: length_dropWhile_le)
  ultimately show "(dropWhile (\<lambda>c. \<not> isspace c) t, s) \<in> measure length"
    using tc by simp
qed

text \<open>\<^verbatim>\<open>sep.join(ws)\<close>.\<close>

fun join :: "'a list \<Rightarrow> 'a list list \<Rightarrow> 'a list" where
  "join sep [] = []"
| "join sep [w] = w"
| "join sep (w # v # ws) = w @ sep @ join sep (v # ws)"

text \<open>\<^verbatim>\<open>s.startswith(p)\<close> and \<^verbatim>\<open>s.split(sep)\<close> for a one-character separator.\<close>

definition startswith :: "'a list \<Rightarrow> 'a list \<Rightarrow> bool" where
  "startswith s p \<longleftrightarrow> take (length p) s = p"

fun split_sep :: "'a \<Rightarrow> 'a list \<Rightarrow> 'a list list" where
  "split_sep sep [] = [[]]"
| "split_sep sep (c # cs) =
     (if c = sep then [] # split_sep sep cs
      else (case split_sep sep cs of
              [] \<Rightarrow> [[c]]
            | w # ws \<Rightarrow> (c # w) # ws))"

text \<open>\<^verbatim>\<open>str(i)\<close> for an integer, as the f-strings of the error messages format it.\<close>

definition digit_char :: "nat \<Rightarrow> char" where
  "digit_char d = ''0123456789'' ! d"

function str_nat :: "nat \<Rightarrow> string" where
  "str_nat n = (if n < 10 then [digit_char n] else str_nat (n div 10) @ [digit_char (n mod 10)])"
  by pat_completeness auto
termination
  by (relation "measure id") simp_all

definition str_int :: "int \<Rightarrow> string" where
  "str_int i = (if i < 0 then ''-'' @ str_nat (nat (- i)) else str_nat (nat i))"

section \<open>Prompt validation\<close>

text \<open>
  \<^verbatim>\<open>validate_prompt\<close> (lines 49 to 57). The result is the value returned (\<open>None\<close> or
  the cleaned prompt) with the messages shown.
\<close>

definition validate_prompt :: "ustr \<Rightarrow> ustr option \<times> effect list" where
  "validate_prompt prompt =
     (if prompt = [] \<or> length (strip prompt) = 0
      then (None, [StError ''Prompt cannot be empty.''])
      else if length prompt > 500
      then (None, [StError ''Prompt is too long (max 500 characters).''])
      else (Some (join [32] (split_ws (strip prompt))), []))"

text \<open>
  The normal form in the words of the specification, to compare the code with: every run
  of whitespace collapsed to a single space (applied to the stripped input).
\<close>

function collapse_runs :: "ustr \<Rightarrow> ustr" where
  "collapse_runs [] = []"
| "collapse_runs (c # cs) =
     (if isspace c then 32 # collapse_runs (dropWhile isspace cs) else c # collapse_runs cs)"
  by pat_completeness auto
termination
  by (relation "measure length") (simp_all add: length_dropWhile_le le_imp_less_Suc)

section \<open>The session and the rate limiter\<close>

text \<open>
  The keys of \<^verbatim>\<open>st.session_state\<close> the core reads and writes; \<open>None\<close> is an absent
  key. Times are seconds as \<^verbatim>\<open>time.time()\<close> returns them, taken as real numbers.
\<close>

record session =
  demo_mode :: "bool option"
  last_request_time :: "real option"
  request_count :: "int option"

text \<open>
  \<^verbatim>\<open>check_rate_limit\<close> (lines 174 to 189), with the current time as a parameter. Reading
  an absent \<^verbatim>\<open>request_count\<close> raises \<open>AttributeError\<close>, as the session object does.
\<close>

definition check_rate_limit ::
  "real \<Rightarrow> session \<Rightarrow> py_error + (bool \<times> session \<times> effect list)" where
  "check_rate_limit current_time st =
     (let st1 = (if last_request_time st = None
                 then st\<lparr>last_request_time := Some 0, request_count := Some 0\<rparr>
                 else st);
          st2 = (if current_time - the (last_request_time st1) > 60
                 then st1\<lparr>request_count := Some 0\<rparr>
                 else st1)
      in case request_count st2 of
           None \<Rightarrow> Inl AttributeError
         | Some n \<Rightarrow>
             (let st3 = st2\<lparr>request_count := Some (n + 1), last_request_time := Some current_time\<rparr>
              in if n + 1 > 5
                 then Inr (False, st3,
                   [StError ''Rate limit exceeded. Please wait a minute before generating another image.''])
                 else Inr (True, st3, [])))"

text \<open>Successive calls at the given times; the answers in order and the final session.\<close>

fun check_rate_limit_seq :: "real list \<Rightarrow> session \<Rightarrow> py_error + (bool list \<times> session)" where
  "check_rate_limit_seq [] st = Inr ([], st)"
| "check_rate_limit_seq (t # ts) st =
     (case check_rate_limit t st of
        Inl e \<Rightarrow> Inl e
      | Inr (allowed, st', _) \<Rightarrow>
          (case check_rate_limit_seq ts st' of
             Inl e \<Rightarrow> Inl e
           | Inr (rest, st'') \<Rightarrow> Inr (allowed # rest, st'')))"

text \<open>
  The limiter in the words of the specification, to compare the code with: a fixed window
  whose start moves only when the count is reset.
\<close>

record limiter_state =
  windowStart :: real
  count :: int

definition tryAcquire_spec :: "real \<Rightarrow> limiter_state \<Rightarrow> bool \<times> limiter_state" where
  "tryAcquire_spec now st =
     (let st1 = (if now - windowStart st > 60 then \<lparr>windowStart = now, count = 0\<rparr> else st);
          st2 = st1\<lparr>count := count st1 + 1\<rparr>
      in (count st2 \<le> 5, st2))"

fun tryAcquire_spec_seq :: "real list \<Rightarrow> limiter_state \<Rightarrow> bool list \<times> limiter_state" where
  "tryAcquire_spec_seq [] st = ([], st)"
| "tryAcquire_spec_seq (t # ts) st =
     (case tryAcquire_spec t st of
        (allowed, st') \<Rightarrow>
          (case tryAcquire_spec_seq ts st' of (rest, st'') \<Rightarrow> (allowed # rest, st'')))"

text \<open>
  A run of calls in which every call comes at most 60 seconds after the one before it
  (the first one at most 60 seconds after \<open>l\<close>): the calls between which
  \<open>check_rate_limit\<close> never resets its counter.
\<close>

fun close_calls :: "real \<Rightarrow> real list \<Rightarrow> bool" where
  "close_calls l [] = True"
| "close_calls l (t # ts) = (t - l \<le> 60 \<and> close_calls t ts)"

section \<open>Paths and files\<close>

text \<open>
  \<^verbatim>\<open>os.path.normpath\<close>, \<^verbatim>\<open>os.path.join\<close> (two arguments), \<^verbatim>\<open>os.path.abspath\<close> and
  \<^verbatim>\<open>os.path.dirname\<close> of Python's \<^verbatim>\<open>posixpath\<close>, with the working directory
  (\<^verbatim>\<open>os.getcwd()\<close>) as a parameter. \<open>norm_comps\<close> is the loop of \<^verbatim>\<open>normpath\<close> over the
  components, \<open>new_comps\<close> its accumulator.
\<close>

fun norm_comps :: "nat \<Rightarrow> string list \<Rightarrow> string list \<Rightarrow> string list" where
  "norm_comps initial_slashes [] new_comps = new_comps"
| "norm_comps initial_slashes (cmp # cmps) new_comps =
     (if cmp = [] \<or> cmp = ''.'' then norm_comps initial_slashes cmps new_comps
      else if cmp \<noteq> ''..'' \<or> (initial_slashes = 0 \<and> new_comps = [])
                \<or> (new_comps \<noteq> [] \<and> last new_comps = ''..'')
      then norm_comps initial_slashes cmps (new_comps @ [cmp])
      else if new_comps \<noteq> [] then norm_comps initial_slashes cmps (butlast new_comps)
      else norm_comps initial_slashes cmps new_comps)"

definition normpath :: "string \<Rightarrow> string" where
  "normpath path =
     (if path = [] then ''.''
      else let initial_slashes =
                 (if startswith path ''/''
                  then (if startswith path ''//'' \<and> \<not> startswith path ''///'' then 2 else 1)
                  else 0);
               comps = norm_comps initial_slashes (split_sep CHR ''/'' path) [];
               path' = replicate initial_slashes CHR ''/'' @ join ''/'' comps
           in if path' = [] then ''.'' else path')"

definition join_path :: "string \<Rightarrow> string \<Rightarrow> string" where
  "join_path a b =
     (if startswith b ''/'' then b
      else if a = [] \<or> last a = CHR ''/'' then a @ b
      else a @ ''/'' @ b)"

definition abspath :: "string \<Rightarrow> string \<Rightarrow> string" where
  "abspath cwd path =
     normpath (if startswith path ''/'' then path else join_path cwd path)"

definition dirname :: "string \<Rightarrow> string" where
  "dirname p =
     (let head = rev (dropWhile (\<lambda>c. c \<noteq> CHR ''/'') (rev p))
      in if head \<noteq> [] \<and> head \<noteq> replicate (length head) CHR ''/''
         then rev (dropWhile (\<lambda>c. c = CHR ''/'') (rev head))
         else head)"

text \<open>
  The file system maps the absolute path of every file and directory to what is there:
  \<open>/\<close> for the root, \<open>/a/b\<close> for an entry \<open>b\<close> of the directory \<open>/a\<close>.
  Symbolic links and permissions are not modelled.
\<close>

datatype node = File string | Dir

type_synonym filesystem = "string \<rightharpoonup> node"

text \<open>
  How the operating system resolves a path name, the raw string a system call receives.
  \<open>walk\<close> goes through the components from the node \<open>cur\<close>: every component, also
  an empty one and \<open>.\<close>, needs \<open>cur\<close> to be a directory (so \<open>x.png/\<close> fails on a file);
  \<open>..\<close> goes to the parent directory; a name goes to that entry, which must exist.
  \<open>resolve\<close> starts at the root for an absolute name and at the working directory
  otherwise (\<open>cwd\<close> is its absolute path, as \<^verbatim>\<open>os.getcwd()\<close> gives it); the empty
  name resolves to nothing.
\<close>

definition child :: "string \<Rightarrow> string \<Rightarrow> string" where
  "child cur name = (if cur = ''/'' then ''/'' @ name else cur @ ''/'' @ name)"

fun walk :: "filesystem \<Rightarrow> string \<Rightarrow> string list \<Rightarrow> py_error + string" where
  "walk files cur [] = Inr cur"
| "walk files cur (c # cs) =
     (case files cur of
        None \<Rightarrow> Inl FileNotFoundError
      | Some (File _) \<Rightarrow> Inl NotADirectoryError
      | Some Dir \<Rightarrow>
          if c = [] \<or> c = ''.'' then walk files cur cs
          else if c = ''..''
          then (if files (dirname cur) = Some Dir then walk files (dirname cur) cs
                else Inl FileNotFoundError)
          else (if files (child cur c) = None then Inl FileNotFoundError
                else walk files (child cur c) cs))"

definition resolve :: "string \<Rightarrow> filesystem \<Rightarrow> string \<Rightarrow> py_error + string" where
  "resolve cwd files path =
     (if path = [] then Inl FileNotFoundError
      else walk files (if startswith path ''/'' then ''/'' else cwd) (split_sep CHR ''/'' path))"

text \<open>
  \<^verbatim>\<open>os.path.exists\<close>, \<^verbatim>\<open>open(path, "rb").read()\<close> and \<^verbatim>\<open>os.remove\<close> on a path
  name. \<open>write_file\<close> is opening a name for writing (creating or truncating the file)
  and writing the bytes: the directory part must resolve to a directory, and the last
  component must be a name that is not a directory.
\<close>

definition os_path_exists :: "string \<Rightarrow> filesystem \<Rightarrow> string \<Rightarrow> bool" where
  "os_path_exists cwd files path =
     (case resolve cwd files path of Inl _ \<Rightarrow> False | Inr _ \<Rightarrow> True)"

definition read_file :: "string \<Rightarrow> filesystem \<Rightarrow> string \<Rightarrow> py_error + string" where
  "read_file cwd files path =
     (case resolve cwd files path of
        Inl err \<Rightarrow> Inl err
      | Inr p \<Rightarrow>
          (case files p of
             None \<Rightarrow> Inl FileNotFoundError
           | Some Dir \<Rightarrow> Inl IsADirectoryError
           | Some (File bytes) \<Rightarrow> Inr bytes))"

definition write_file ::
  "string \<Rightarrow> filesystem \<Rightarrow> string \<Rightarrow> string \<Rightarrow> py_error + filesystem" where
  "write_file cwd files path bytes =
     (if path = [] then Inl FileNotFoundError
      else
        (let comps = split_sep CHR ''/'' path;
             name = last comps
         in case walk files (if startswith path ''/'' then ''/'' else cwd) (butlast comps) of
              Inl err \<Rightarrow> Inl err
            | Inr d \<Rightarrow>
                if files d = None then Inl FileNotFoundError
                else if files d \<noteq> Some Dir then Inl NotADirectoryError
                else if name = [] \<or> name = ''.'' \<or> name = ''..'' then Inl IsADirectoryError
                else if files (child d name) = Some Dir then Inl IsADirectoryError
                else Inr (files(child d name \<mapsto> File bytes))))"

definition os_remove :: "string \<Rightarrow> filesystem \<Rightarrow> string \<Rightarrow> py_error + filesystem" where
  "os_remove cwd files path =
     (case resolve cwd files path of
        Inl err \<Rightarrow> Inl err
      | Inr p \<Rightarrow>
          (case files p of
             None \<Rightarrow> Inl FileNotFoundError
           | Some Dir \<Rightarrow> Inl IsADirectoryError
           | Some (File _) \<Rightarrow> Inr (files(p := None))))"

section \<open>Images and reading them back\<close>

text \<open>
  A PIL image as far as the code looks at it: its mode, its size (width, height) and its
  pixels row by row. \<open>Image_new\<close> is \<^verbatim>\<open>Image.new(mode, size, color=...)\<close>.
\<close>

record image =
  mode :: string
  img_size :: "nat \<times> nat"
  pixels :: "(nat \<times> nat \<times> nat) list"

definition Image_new :: "string \<Rightarrow> nat \<times> nat \<Rightarrow> nat \<times> nat \<times> nat \<Rightarrow> image" where
  "Image_new m sz color = \<lparr>mode = m, img_size = sz, pixels = replicate (fst sz * snd sz) color\<rparr>"

text \<open>
  \<^verbatim>\<open>get_image_base64\<close> (lines 165 to 171). \<open>b64encode\<close> stands for
  \<^verbatim>\<open>base64.b64encode(...).decode('utf-8')\<close>. The two tests of the \<^verbatim>\<open>or\<close> are
  evaluated in order, as Python does.
\<close>

definition get_image_base64 ::
  "(string \<Rightarrow> string) \<Rightarrow> string \<Rightarrow> filesystem \<Rightarrow> string \<Rightarrow> py_error + string option" where
  "get_image_base64 b64encode cwd files image_path =
     (let base_dir = abspath cwd ''generated_images'';
          full_path = abspath cwd image_path
      in if \<not> startswith full_path base_dir then Inr None
         else if \<not> os_path_exists cwd files full_path then Inr None
         else (case read_file cwd files full_path of
                 Inl e \<Rightarrow> Inl e
               | Inr bytes \<Rightarrow> Inr (Some (b64encode bytes))))"

text \<open>
  What the specification means by a path inside the blob root: the root itself or a path
  below it.
\<close>

definition within_root :: "string \<Rightarrow> string \<Rightarrow> bool" where
  "within_root base p \<longleftrightarrow> p = base \<or> startswith p (base @ ''/'')"

text \<open>
  \<^verbatim>\<open>load_image\<close> (lines 136 to 139); \<open>opener\<close> stands for decoding the bytes as
  \<^verbatim>\<open>Image.open\<close> does, \<open>None\<close> when they are no image.
\<close>

definition load_image ::
  "(string \<Rightarrow> image option) \<Rightarrow> string \<Rightarrow> filesystem \<Rightarrow> string \<Rightarrow> py_error + image option" where
  "load_image opener cwd files fname =
     (if os_path_exists cwd files fname
      then (case read_file cwd files fname of
              Inl e \<Rightarrow> Inl e
            | Inr bytes \<Rightarrow>
                (case opener bytes of
                   None \<Rightarrow> Inl UnidentifiedImageError
                 | Some img \<Rightarrow> Inr (Some img)))
      else Inr None)"

section \<open>Image generation\<close>

text \<open>
  An HTTP response as the code reads it: \<^verbatim>\<open>status_code\<close>, \<^verbatim>\<open>content\<close> and the result
  of \<^verbatim>\<open>json()\<close>, \<open>None\<close> when the body is not JSON (the call raises).
\<close>

datatype json =
  JString string
  | JNumber int
  | JBool bool
  | JNull
  | JArray "json list"
  | JObject "(string \<times> json) list"

record response =
  status_code :: int
  content :: string
  json :: "json option"

text \<open>
  What \<^verbatim>\<open>generate_image\<close> gets from outside: the outcome of the lookup
  \<^verbatim>\<open>st.secrets.get("HUGGING_FACE_API_TOKEN")\<close> (an exception when no secrets file
  exists, \<open>None\<close> when the file has no such key, else the token), the remote service (\<open>post url auth inputs k\<close> is the outcome
  of the \<open>k\<close>-th request, an exception or a response), \<^verbatim>\<open>Image.open\<close> on a response
  body, and Python's \<^verbatim>\<open>str\<close> of a JSON value that is not a string.
\<close>

record env =
  secrets_get :: "py_error + string option"
  post :: "string \<Rightarrow> string \<Rightarrow> ustr \<Rightarrow> nat \<Rightarrow> py_error + response"
  image_open :: "string \<Rightarrow> image option"
  py_repr :: "json \<Rightarrow> string"

text \<open>
  The error path (lines 98 to 104): the message shown. The \<^verbatim>\<open>try\<close> branch applies when
  the body is a JSON object; a body that is not JSON, or JSON but no object, raises inside
  \<^verbatim>\<open>try\<close> and gets the generic message.
\<close>

definition error_message :: "env \<Rightarrow> response \<Rightarrow> string" where
  "error_message e r =
     (case json r of
        Some (JObject kvs) \<Rightarrow>
          (let error_msg = (case map_of kvs ''error'' of
                              None \<Rightarrow> ''Unknown error''
                            | Some (JString s) \<Rightarrow> s
                            | Some v \<Rightarrow> py_repr e v)
           in ''Failed to generate image: '' @ error_msg
                @ '' (Status code: '' @ str_int (status_code r) @ '')'')
      | _ \<Rightarrow> ''Failed to generate image: API error (Status code: ''
                @ str_int (status_code r) @ '')'')"

text \<open>
  The retry loop (lines 83 to 97) over the attempts still to make. It ends by returning
  an image, by an exception, or by leaving the loop (\<^verbatim>\<open>break\<close> or exhaustion) with the
  last response in the variable \<^verbatim>\<open>response\<close>.
\<close>

datatype loop_exit = Returned image | Exhausted "response option"

fun request_loop ::
  "env \<Rightarrow> string \<Rightarrow> string \<Rightarrow> ustr \<Rightarrow> nat list \<Rightarrow> response option
     \<Rightarrow> (py_error + loop_exit) \<times> effect list" where
  "request_loop e url auth prompt [] last_response = (Inr (Exhausted last_response), [])"
| "request_loop e url auth prompt (attempt # rest) last_response =
     (case post e url auth prompt attempt of
        Inl err \<Rightarrow> (Inl err, [HttpPost url auth prompt])
      | Inr r \<Rightarrow>
          if status_code r = 200
          then (case image_open e (content r) of
                  None \<Rightarrow> (Inl UnidentifiedImageError, [HttpPost url auth prompt])
                | Some img \<Rightarrow> (Inr (Returned img), [HttpPost url auth prompt]))
          else if status_code r = 429
          then (case request_loop e url auth prompt rest (Some r) of
                  (res, effs) \<Rightarrow> (res, HttpPost url auth prompt # Sleep (2 ^ attempt) # effs))
          else (Inr (Exhausted (Some r)), [HttpPost url auth prompt]))"

definition model_for :: "string option \<Rightarrow> string" where
  "model_for style =
     (if style = Some ''cyberpunk'' then ''black-forest-labs/FLUX.1-dev''
      else if style = Some ''cartoon'' then ''black-forest-labs/FLUX.1-dev''
      else ''stabilityai/stable-diffusion-xl-base-1.0'')"

text \<open>
  \<^verbatim>\<open>generate_image\<close> (lines 60 to 105): the value returned or the exception raised, the
  session afterwards, and the effects. The token lookup of line 62 comes first; when it
  raises, nothing else happens.
\<close>

definition generate_image ::
  "env \<Rightarrow> session \<Rightarrow> ustr \<Rightarrow> string option
     \<Rightarrow> (py_error + image option) \<times> session \<times> effect list" where
  "generate_image e st prompt style =
     (case secrets_get e of
        Inl err \<Rightarrow> (Inl err, st, [])
      | Inr API_TOKEN \<Rightarrow>
     (let missing = (API_TOKEN = None \<or> API_TOKEN = Some []);
          st1 = (if missing then st\<lparr>demo_mode := Some True\<rparr> else st);
          eff1 = (if missing
                  then [StError ''Hugging Face API token not configured. Using demo mode.'']
                  else [])
      in if (case demo_mode st1 of None \<Rightarrow> True | Some b \<Rightarrow> b)
         then (Inr (Some (Image_new ''RGB'' (512, 512) (73, 109, 137))), st1, eff1 @ [Sleep 3])
         else
           (let auth = ''Bearer '' @ (case API_TOKEN of None \<Rightarrow> ''None'' | Some t \<Rightarrow> t);
                API_URL = ''https://api-inference.huggingface.co/models/'' @ model_for style
            in case request_loop e API_URL auth prompt [0, 1, 2] None of
                 (Inl err, effs) \<Rightarrow> (Inl err, st1, eff1 @ effs)
               | (Inr (Returned img), effs) \<Rightarrow> (Inr (Some img), st1, eff1 @ effs)
               | (Inr (Exhausted None), effs) \<Rightarrow> (Inl NameError, st1, eff1 @ effs)
               | (Inr (Exhausted (Some r)), effs) \<Rightarrow>
                   (Inr None, st1, eff1 @ effs @ [StError (error_message e r)]))))"

section \<open>The record store\<close>

text \<open>
  A row of the table \<^verbatim>\<open>prompts\<close>, and the world the store lives in: the files, the
  table in insertion order, and the largest row id ever given out (SQLite's
  \<^verbatim>\<open>sqlite_sequence\<close> entry of an \<^verbatim>\<open>AUTOINCREMENT\<close> key). Database operations are
  taken to succeed.
\<close>

record row =
  p_id :: int
  p_prompt :: ustr
  p_expected_style :: string
  p_filename :: string
  p_created_at :: real
  p_score :: "int option"
  p_feedback :: "string option"

record world =
  fs :: filesystem
  prompts_table :: "row list"
  sqlite_sequence :: int

text \<open>The id an insert gets: one more than the largest id that ever existed.\<close>

definition autoincrement_rowid :: "world \<Rightarrow> int" where
  "autoincrement_rowid w = fold max (map p_id (prompts_table w)) (sqlite_sequence w) + 1"

text \<open>
  \<^verbatim>\<open>save_image\<close> (lines 108 to 124). \<open>timestamp\<close> is the formatted time of the first
  \<^verbatim>\<open>datetime.now()\<close>, \<open>now\<close> the second one, \<open>png\<close> the bytes \<^verbatim>\<open>image.save\<close>
  writes for an image.
\<close>

definition save_image ::
  "string \<Rightarrow> (image \<Rightarrow> string) \<Rightarrow> string \<Rightarrow> real \<Rightarrow> world \<Rightarrow> image \<Rightarrow> ustr \<Rightarrow> string
     \<Rightarrow> (py_error + string option \<times> int option) \<times> world \<times> effect list" where
  "save_image cwd png timestamp now w img prompt expected_style =
     (if fst (img_size img) > 4096 \<or> snd (img_size img) > 4096
      then (Inr (None, None), w, [StError ''Image dimensions are too large.''])
      else
        (let fname = ''generated_images/image_'' @ timestamp @ ''.png''
         in case write_file cwd (fs w) fname (png img) of
              Inl err \<Rightarrow> (Inl err, w, [])
            | Inr fs' \<Rightarrow>
                (let prompt_id = autoincrement_rowid w;
                     new_row = \<lparr>p_id = prompt_id, p_prompt = prompt,
                                p_expected_style = expected_style, p_filename = fname,
                                p_created_at = now, p_score = None, p_feedback = None\<rparr>
                 in (Inr (Some fname, Some prompt_id),
                     w\<lparr>fs := fs', prompts_table := prompts_table w @ [new_row],
                       sqlite_sequence := prompt_id\<rparr>,
                     []))))"

text \<open>\<^verbatim>\<open>delete_image\<close> (lines 127 to 133).\<close>

definition delete_image :: "string \<Rightarrow> world \<Rightarrow> int \<Rightarrow> string \<Rightarrow> (py_error + unit) \<times> world" where
  "delete_image cwd w prompt_id fname =
     (case (if os_path_exists cwd (fs w) fname
            then os_remove cwd (fs w) fname
            else Inr (fs w)) of
        Inl err \<Rightarrow> (Inl err, w)
      | Inr fs' \<Rightarrow>
          (Inr (),
           w\<lparr>fs := fs', prompts_table := filter (\<lambda>r. p_id r \<noteq> prompt_id) (prompts_table w)\<rparr>))"

text \<open>
  Modelled from the spec: \<^verbatim>\<open>get(recordId) -> GenerationRecord | absent\<close>, a lookup by
  id that the source does not define (it only lists all rows).
\<close>

definition get_record :: "world \<Rightarrow> int \<Rightarrow> row option" where
  "get_record w record_id = find (\<lambda>r. p_id r = record_id) (prompts_table w)"

section \<open>The evaluation report\<close>

text \<open>
  The report of \<^verbatim>\<open>main\<close> (lines 312 to 330) as a function of the rows listed:
  \<open>None\<close> when no row is evaluated, else the overall average and the averages by style
  in the order of the dictionary \<^verbatim>\<open>styles\<close>. \<open>styles_append\<close> is the body of the
  loop that fills the dictionary; \<open>mean\<close> is \<^verbatim>\<open>sum(scores) / len(scores)\<close>, taken in the
  real numbers.
\<close>

fun styles_append :: "(string \<times> int list) list \<Rightarrow> string \<Rightarrow> int \<Rightarrow> (string \<times> int list) list" where
  "styles_append [] style s = [(style, [s])]"
| "styles_append ((k, scores) # styles) style s =
     (if k = style then (k, scores @ [s]) # styles
      else (k, scores) # styles_append styles style s)"

definition mean :: "int list \<Rightarrow> real" where
  "mean scores = real_of_int (sum_list scores) / real (length scores)"

definition evaluation_report :: "row list \<Rightarrow> (real \<times> (string \<times> real) list) option" where
  "evaluation_report prompts =
     (let evaluated_prompts = filter (\<lambda>p. p_score p \<noteq> None) prompts
      in if evaluated_prompts = [] then None
         else
           (let avg_score = mean (map (\<lambda>p. the (p_score p)) evaluated_prompts);
                styles = fold (\<lambda>p styles. styles_append styles (p_expected_style p) (the (p_score p)))
                           evaluated_prompts []
            in Some (avg_score, map (\<lambda>(style, scores). (style, mean scores)) styles)))"

section \<open>Auxiliary predicates\<close>

text \<open>
  A list of words as \<open>split_ws\<close> produces them: every word is non-empty and free of
  whitespace. Used only to state intermediate lemmas.
\<close>

definition words_ok :: "ustr list \<Rightarrow> bool" where
  "words_ok ws \<longleftrightarrow> list_all (\<lambda>w. w \<noteq> [] \<and> list_all (\<lambda>c. \<not> isspace c) w) ws"

text \<open>
  Path components as \<open>normpath\<close> leaves them in an absolute path: non-empty, neither
  \<open>.\<close> nor \<open>..\<close>, and free of the separator. Used only to state intermediate lemmas.
\<close>

definition clean_comps :: "string list \<Rightarrow> bool" where
  "clean_comps cs \<longleftrightarrow>
     list_all (\<lambda>c. c \<noteq> [] \<and> c \<noteq> ''.'' \<and> c \<noteq> ''..'' \<and> CHR ''/'' \<notin> set c) cs"

chapter \<open>Properties\<close>

section \<open>Prompt validation\<close>

subsection \<open>Auxiliary facts about stripping, splitting and joining\<close>

declare split_ws.simps [simp del]

lemma isspace_32: "isspace 32"
  by (simp add: isspace_def)

lemma rstrip_Nil: "rstrip [] = []"
  by (simp add: rstrip_def)

lemma rstrip_eq_Nil: "rstrip s = [] \<longleftrightarrow> (\<forall>c\<in>set s. isspace c)"
  by (simp add: rstrip_def dropWhile_eq_Nil_conv)

lemma rstrip_Cons:
  "rstrip (c # cs) = (if isspace c \<and> rstrip cs = [] then [] else c # rstrip cs)"
proof (cases "\<forall>x\<in>set cs. isspace x")
  case True
  then show ?thesis by (simp add: rstrip_def dropWhile_append dropWhile_eq_Nil_conv)
next
  case False
  then show ?thesis by (auto simp add: rstrip_def dropWhile_append dropWhile_eq_Nil_conv)
qed

lemma rstrip_append_nonspace:
  "\<forall>c\<in>set w. \<not> isspace c \<Longrightarrow> rstrip (w @ r) = w @ rstrip r"
  by (induction w) (simp_all add: rstrip_Cons)

lemma collapse_append_nonspace:
  "\<forall>c\<in>set w. \<not> isspace c \<Longrightarrow> collapse_runs (w @ x) = w @ collapse_runs x"
  by (induction w) simp_all

lemma lstrip_rstrip_commute:
  "dropWhile isspace (rstrip x) = rstrip (dropWhile isspace x)"
proof (induction x)
  case Nil
  show ?case by (simp add: rstrip_Nil)
next
  case (Cons c cs)
  show ?case
  proof (cases "isspace c")
    case False
    then show ?thesis by (simp add: rstrip_Cons)
  next
    case sp: True
    show ?thesis
    proof (cases "rstrip cs = []")
      case True
      then have "\<forall>x\<in>set cs. isspace x" by (simp add: rstrip_eq_Nil)
      then have "rstrip (dropWhile isspace cs) = []"
        by (auto simp add: rstrip_eq_Nil dest: set_dropWhileD)
      with sp True show ?thesis by (simp add: rstrip_Cons)
    next
      case False
      with sp Cons show ?thesis by (simp add: rstrip_Cons)
    qed
  qed
qed

lemma rstrip_rstrip: "rstrip (rstrip s) = rstrip s"
  by (simp add: rstrip_def)

lemma strip_strip: "strip (strip s) = strip s"
  by (simp add: strip_def lstrip_def lstrip_rstrip_commute rstrip_rstrip)

lemma split_ws_Nil: "split_ws [] = []"
  by (simp add: split_ws.simps)

lemma split_ws_lstrip: "split_ws (dropWhile isspace s) = split_ws s"
  by (subst (1 2) split_ws.simps) simp

lemma split_ws_space_Cons: "isspace c \<Longrightarrow> split_ws (c # cs) = split_ws cs"
  by (subst (1 2) split_ws.simps) simp

lemma split_ws_eq_Nil: "split_ws s = [] \<longleftrightarrow> (\<forall>c\<in>set s. isspace c)"
  by (subst split_ws.simps) (simp add: Let_def dropWhile_eq_Nil_conv)

lemma join_sp_Cons: "join [32] (w # ws) = (if ws = [] then w else w @ 32 # join [32] ws)"
  by (cases ws) simp_all

lemma dropWhile_nonspace_head:
  "dropWhile (\<lambda>c. \<not> isspace c) t = [] \<or> isspace (hd (dropWhile (\<lambda>c. \<not> isspace c) t))"
  using hd_dropWhile [of "\<lambda>c. \<not> isspace c" t] by auto

lemma collapse_rstrip_space_head:
  assumes "r = [] \<or> isspace (hd r)"
  shows "collapse_runs (rstrip r) =
           (if split_ws r = [] then [] else 32 # collapse_runs (strip r))"
proof (cases "\<forall>c\<in>set r. isspace c")
  case True
  then show ?thesis by (simp add: split_ws_eq_Nil rstrip_eq_Nil [THEN iffD2])
next
  case False
  then obtain sp r' where r: "r = sp # r'" by (cases r) auto
  with assms have sp: "isspace sp" by simp
  from False r sp have ne: "rstrip r' \<noteq> []" by (simp add: rstrip_eq_Nil)
  have "collapse_runs (rstrip r) = 32 # collapse_runs (dropWhile isspace (rstrip r'))"
    using r sp ne by (simp add: rstrip_Cons)
  also have "dropWhile isspace (rstrip r') = strip r"
    using r sp by (simp add: lstrip_rstrip_commute strip_def lstrip_def)
  finally show ?thesis using False by (simp add: split_ws_eq_Nil)
qed

lemma join_split_collapse: "join [32] (split_ws s) = collapse_runs (strip s)"
proof (induction s rule: split_ws.induct)
  case (1 s)
  define t where "t = dropWhile isspace s"
  show ?case
  proof (cases "t = []")
    case True
    then have all: "\<forall>c\<in>set s. isspace c" by (simp add: t_def)
    then have "split_ws s = []" by (simp add: split_ws_eq_Nil)
    moreover have "strip s = []"
      using all by (auto simp add: strip_def lstrip_def rstrip_eq_Nil dest: set_dropWhileD)
    ultimately show ?thesis by simp
  next
    case False
    define w where "w = takeWhile (\<lambda>c. \<not> isspace c) t"
    define r where "r = dropWhile (\<lambda>c. \<not> isspace c) t"
    have wr: "t = w @ r" by (simp add: w_def r_def)
    have wok: "\<forall>c\<in>set w. \<not> isspace c" unfolding w_def by (auto dest: set_takeWhileD)
    have IH: "join [32] (split_ws r) = collapse_runs (strip r)"
      using "1.IH" [OF t_def False] by (simp add: r_def)
    have rhead: "r = [] \<or> isspace (hd r)" unfolding r_def by (rule dropWhile_nonspace_head)
    have sp: "split_ws s = w # split_ws r"
      by (subst split_ws.simps) (simp add: Let_def t_def [symmetric] False w_def r_def)
    have "collapse_runs (strip s) = w @ collapse_runs (rstrip r)"
      using wok by (simp add: strip_def lstrip_def t_def [symmetric] wr
          rstrip_append_nonspace collapse_append_nonspace)
    also have "\<dots> = join [32] (w # split_ws r)"
      by (simp add: collapse_rstrip_space_head [OF rhead] join_sp_Cons IH)
    finally show ?thesis by (simp add: sp)
  qed
qed

lemma split_ws_words_ok: "words_ok (split_ws s)"
proof (induction s rule: split_ws.induct)
  case (1 s)
  define t where "t = dropWhile isspace s"
  show ?case
  proof (cases "t = []")
    case True
    then show ?thesis by (subst split_ws.simps) (simp add: t_def words_ok_def)
  next
    case False
    then obtain c cs where tc: "t = c # cs" by (cases t) auto
    have "\<not> isspace (hd t)" unfolding t_def using False hd_dropWhile t_def by blast
    then have c: "\<not> isspace c" using tc by simp
    have "words_ok (split_ws (dropWhile (\<lambda>c. \<not> isspace c) t))"
      using "1.IH" [OF t_def False] .
    moreover have "list_all (\<lambda>c. \<not> isspace c) (takeWhile (\<lambda>c. \<not> isspace c) t)"
      by (auto simp add: list_all_iff dest: set_takeWhileD)
    moreover have "takeWhile (\<lambda>c. \<not> isspace c) t \<noteq> []" using tc c by simp
    ultimately show ?thesis
      by (subst split_ws.simps) (simp add: Let_def t_def [symmetric] False words_ok_def)
  qed
qed

lemma split_ws_word_append:
  assumes "w \<noteq> []" and "\<forall>c\<in>set w. \<not> isspace c" and "x = [] \<or> isspace (hd x)"
  shows "split_ws (w @ x) = w # split_ws x"
proof -
  from assms(1) obtain c cs where w: "w = c # cs" by (cases w) auto
  with assms(2) have c: "\<not> isspace c" by simp
  have d: "dropWhile isspace (w @ x) = w @ x" using w c by simp
  have tk: "takeWhile (\<lambda>c. \<not> isspace c) (w @ x) = w"
    using assms(2,3) by (cases x) (simp_all add: takeWhile_append2)
  have dr: "dropWhile (\<lambda>c. \<not> isspace c) (w @ x) = x"
    using assms(2,3) by (cases x) (simp_all add: dropWhile_append2)
  show ?thesis
    by (subst split_ws.simps) (simp only: Let_def d tk dr assms(1) if_False append_is_Nil_conv simp_thms)
qed

lemma split_join_words: "words_ok ws \<Longrightarrow> split_ws (join [32] ws) = ws"
proof (induction ws)
  case Nil
  show ?case by (simp add: split_ws_Nil)
next
  case (Cons w ws)
  then have w: "w \<noteq> []" "\<forall>c\<in>set w. \<not> isspace c" and rest: "words_ok ws"
    by (simp_all add: words_ok_def list_all_iff)
  show ?case
  proof (cases "ws = []")
    case True
    with split_ws_word_append [OF w, of "[]"] show ?thesis by (simp add: split_ws_Nil)
  next
    case False
    have "split_ws (w @ 32 # join [32] ws) = w # split_ws (32 # join [32] ws)"
      by (rule split_ws_word_append [OF w]) (simp add: isspace_32)
    also have "split_ws (32 # join [32] ws) = split_ws (join [32] ws)"
      by (rule split_ws_space_Cons) (rule isspace_32)
    finally show ?thesis using Cons.IH [OF rest] False by (simp add: join_sp_Cons)
  qed
qed

lemma join_sp_eq_Nil: "words_ok ws \<Longrightarrow> join [32] ws = [] \<longleftrightarrow> ws = []"
  by (cases ws) (simp_all add: words_ok_def join_sp_Cons)

lemma lstrip_join_words: "words_ok ws \<Longrightarrow> dropWhile isspace (join [32] ws) = join [32] ws"
proof (cases ws)
  case Nil
  then show ?thesis by simp
next
  case (Cons v vs)
  assume "words_ok ws"
  with Cons show ?thesis by (cases v) (simp_all add: words_ok_def join_sp_Cons)
qed

lemma strip_join_words: "words_ok ws \<Longrightarrow> strip (join [32] ws) = join [32] ws"
proof (induction ws)
  case Nil
  show ?case by (simp add: strip_def lstrip_def rstrip_Nil)
next
  case (Cons w ws)
  then have w: "w \<noteq> []" "\<forall>c\<in>set w. \<not> isspace c" and rest: "words_ok ws"
    by (simp_all add: words_ok_def list_all_iff)
  have l: "dropWhile isspace (join [32] (w # ws)) = join [32] (w # ws)"
    by (rule lstrip_join_words) (rule Cons.prems)
  show ?case
  proof (cases "ws = []")
    case True
    have "rstrip w = w" using rstrip_append_nonspace [OF w(2), of "[]"] by (simp add: rstrip_Nil)
    with l True show ?thesis by (simp add: strip_def lstrip_def)
  next
    case False
    have ne: "join [32] ws \<noteq> []" using join_sp_eq_Nil [OF rest] False by simp
    have "rstrip (join [32] ws) = join [32] ws"
      using Cons.IH [OF rest] lstrip_join_words [OF rest] by (simp add: strip_def lstrip_def)
    then have "rstrip (w @ 32 # join [32] ws) = w @ 32 # join [32] ws"
      using ne by (simp add: rstrip_append_nonspace [OF w(2)] rstrip_Cons)
    with l False show ?thesis by (simp add: strip_def lstrip_def join_sp_Cons)
  qed
qed

lemma length_rstrip_le: "length (rstrip s) \<le> length s"
  using length_dropWhile_le [of isspace "rev s"] by (simp add: rstrip_def)

lemma length_strip_le: "length (strip s) \<le> length s"
  using length_rstrip_le [of "lstrip s"] length_dropWhile_le [of isspace s]
  by (simp add: strip_def lstrip_def)

lemma length_join_split: "length (join [32] (split_ws s)) \<le> length (dropWhile isspace s)"
proof (induction s rule: split_ws.induct)
  case (1 s)
  define t where "t = dropWhile isspace s"
  show ?case
  proof (cases "t = []")
    case True
    then show ?thesis by (subst split_ws.simps) (simp add: t_def)
  next
    case False
    define w where "w = takeWhile (\<lambda>c. \<not> isspace c) t"
    define r where "r = dropWhile (\<lambda>c. \<not> isspace c) t"
    have "length (w @ r) = length t"
      unfolding w_def r_def by (simp only: takeWhile_dropWhile_id)
    then have wr: "length t = length w + length r" by simp
    have IH: "length (join [32] (split_ws r)) \<le> length (dropWhile isspace r)"
      using "1.IH" [OF t_def False] by (simp add: r_def)
    have rhead: "r = [] \<or> isspace (hd r)" unfolding r_def by (rule dropWhile_nonspace_head)
    have sp: "split_ws s = w # split_ws r"
      by (subst split_ws.simps) (simp add: Let_def t_def [symmetric] False w_def r_def)
    show ?thesis
    proof (cases "split_ws r = []")
      case True
      then show ?thesis using wr by (simp add: sp t_def [symmetric])
    next
      case ne: False
      then have "r \<noteq> []" by (auto simp add: split_ws_Nil)
      with rhead obtain c cs where r: "r = c # cs" and c: "isspace c" by (cases r) auto
      have "length (dropWhile isspace r) \<le> length cs"
        using r c by (simp add: length_dropWhile_le)
      with IH have "Suc (length (join [32] (split_ws r))) \<le> length r" using r by simp
      then show ?thesis using wr ne by (simp add: sp join_sp_Cons t_def [symmetric])
    qed
  qed
qed

lemma strip_nonempty_words: "strip s \<noteq> [] \<Longrightarrow> split_ws (strip s) \<noteq> []"
proof -
  assume ne: "strip s \<noteq> []"
  then have d: "dropWhile isspace (rev (lstrip s)) \<noteq> []" by (simp add: strip_def rstrip_def)
  have "\<not> isspace (hd (dropWhile isspace (rev (lstrip s))))" using hd_dropWhile [OF d] .
  moreover have "hd (dropWhile isspace (rev (lstrip s))) = last (strip s)"
    using d by (simp add: strip_def rstrip_def last_rev)
  moreover have "last (strip s) \<in> set (strip s)" using ne by simp
  ultimately show ?thesis by (auto simp add: split_ws_eq_Nil)
qed

lemma dropWhile_replicate_all: "P x \<Longrightarrow> dropWhile P (replicate n x) = []"
  by (simp add: dropWhile_eq_Nil_conv)

lemma strip_replicate_space: "strip (replicate n 32) = []"
  by (simp add: strip_def lstrip_def rstrip_def dropWhile_replicate_all isspace_32)


subsection \<open>C6: what prompt validation rejects and what it returns\<close>

text \<open>
  Claim C6, as amended. \<open>validate_prompt\<close> rejects with the empty-prompt message exactly
  when the stripped input has zero length; it rejects with the too-long message exactly when
  the stripped input is non-empty and the raw input has more than 500 characters (the
  emptiness check comes first, so a long input of whitespace only is reported as empty);
  and it succeeds exactly in the remaining case, returning the stripped input with every
  run of whitespace replaced by one space (\<open>collapse_runs\<close>, written from the wording of
  the specification).
\<close>

theorem validate_prompt_cases:
  "(validate_prompt p = (None, [StError ''Prompt cannot be empty.''])) = (length (strip p) = 0)
   \<and> (validate_prompt p = (None, [StError ''Prompt is too long (max 500 characters).'']))
       = (length (strip p) \<noteq> 0 \<and> 500 < length p)
   \<and> (validate_prompt p = (Some (collapse_runs (strip p)), []))
       = (length (strip p) \<noteq> 0 \<and> length p \<le> 500)"
proof -
  have "p = [] \<Longrightarrow> strip p = []" by (simp add: strip_def lstrip_def rstrip_Nil)
  moreover have "join [32] (split_ws (strip p)) = collapse_runs (strip p)"
    by (simp only: join_split_collapse strip_strip)
  ultimately show ?thesis
    by (auto simp add: validate_prompt_def)
qed

text \<open>
  The theorem at two inputs: \<open>" a\t\nb "\<close> is accepted as \<open>"a b"\<close>, and \<open>" \t"\<close> is
  rejected as empty.
\<close>

theorem validate_prompt_cases_witness:
  "validate_prompt [32, 97, 9, 10, 98, 32] = (Some [97, 32, 98], [])
   \<and> validate_prompt [32, 9] = (None, [StError ''Prompt cannot be empty.''])"
  using validate_prompt_cases [of "[32, 97, 9, 10, 98, 32]"] validate_prompt_cases [of "[32, 9]"]
  by (simp add: strip_def lstrip_def rstrip_def isspace_def)

text \<open>
  The claim as first stated (too long exactly when the raw length exceeds 500) fails on
  501 spaces: the raw length exceeds 500, yet the rejection is the empty-prompt one.
\<close>

theorem validate_prompt_too_long_counterexample:
  "500 < length (replicate 501 (32::nat))
   \<and> validate_prompt (replicate 501 32) = (None, [StError ''Prompt cannot be empty.''])
   \<and> validate_prompt (replicate 501 32)
       \<noteq> (None, [StError ''Prompt is too long (max 500 characters).''])"
  by (simp add: validate_prompt_def strip_replicate_space)

subsection \<open>C7: prompt validation is idempotent\<close>

text \<open>
  Claim C7. Whenever \<open>validate_prompt x\<close> succeeds with the cleaned prompt \<open>y\<close>,
  validating \<open>y\<close> again succeeds, shows no message and returns \<open>y\<close> itself.
\<close>

theorem validate_prompt_idempotent:
  assumes "fst (validate_prompt x) = Some y"
  shows "validate_prompt y = (Some y, [])"
proof -
  from assms have ne: "strip x \<noteq> []" and len: "length x \<le> 500"
    and y: "y = join [32] (split_ws (strip x))"
    by (auto simp add: validate_prompt_def split: if_splits)
  have ok: "words_ok (split_ws (strip x))" by (rule split_ws_words_ok)
  have yne: "y \<noteq> []" using join_sp_eq_Nil [OF ok] strip_nonempty_words [OF ne] y by simp
  have sy: "strip y = y" using strip_join_words [OF ok] y by simp
  have "length y \<le> length (strip x)"
    using length_join_split [of "strip x"] length_dropWhile_le [of isspace "strip x"] y by simp
  with length_strip_le [of x] len have ly: "length y \<le> 500" by simp
  have "join [32] (split_ws y) = y" using split_join_words [OF ok] y by simp
  with yne sy ly show ?thesis by (simp add: validate_prompt_def)
qed

theorem validate_prompt_idempotent_witness:
  "fst (validate_prompt [32, 97, 9, 10, 98, 32]) = Some [97, 32, 98]
   \<and> validate_prompt [97, 32, 98] = (Some [97, 32, 98], [])"
proof -
  have h: "fst (validate_prompt [32, 97, 9, 10, 98, 32]) = Some [97, 32, 98]"
    by (simp add: validate_prompt_def strip_def lstrip_def rstrip_def isspace_def split_ws.simps)
  from validate_prompt_idempotent [OF h] h show ?thesis by simp
qed

section \<open>Rate limiting\<close>

lemma check_rate_limit_present:
  assumes "last_request_time st = Some l" and "request_count st = Some n"
  shows "check_rate_limit t st =
           Inr ((if t - l > 60 then 0 else n) + 1 \<le> 5,
                st\<lparr>request_count := Some ((if t - l > 60 then 0 else n) + 1),
                   last_request_time := Some t\<rparr>,
                if (if t - l > 60 then 0 else n) + 1 \<le> 5 then []
                else [StError ''Rate limit exceeded. Please wait a minute before generating another image.''])"
  using assms by (simp add: check_rate_limit_def Let_def)

lemma check_rate_limit_seq_close:
  assumes "close_calls l ts" and "last_request_time st = Some l" and "request_count st = Some n"
  shows "check_rate_limit_seq ts st =
           Inr (map (\<lambda>k. n + int k + 1 \<le> 5) [0..<length ts],
                st\<lparr>request_count := Some (n + int (length ts)),
                   last_request_time := Some (last (l # ts))\<rparr>)"
  using assms
proof (induction ts arbitrary: st l n)
  case Nil
  then show ?case by (cases st) simp
next
  case (Cons t ts)
  define st' where "st' = st\<lparr>request_count := Some (n + 1), last_request_time := Some t\<rparr>"
  from Cons.prems have gap: "\<not> t - l > 60" and rest: "close_calls t ts" by simp_all
  have step: "check_rate_limit t st =
      Inr (n + 1 \<le> 5, st',
           if n + 1 \<le> 5 then []
           else [StError ''Rate limit exceeded. Please wait a minute before generating another image.''])"
    using check_rate_limit_present [OF Cons.prems(2,3), of t] gap by (simp add: st'_def)
  have l': "last_request_time st' = Some t" and n': "request_count st' = Some (n + 1)"
    by (simp_all add: st'_def)
  have tail: "check_rate_limit_seq ts st' =
      Inr (map (\<lambda>k. n + 1 + int k + 1 \<le> 5) [0..<length ts],
           st'\<lparr>request_count := Some (n + 1 + int (length ts)),
               last_request_time := Some (last (t # ts))\<rparr>)"
    by (rule Cons.IH [OF rest l' n'])
  have shift: "map (\<lambda>k. n + int k + 1 \<le> 5) [0..<length (t # ts)] =
      (n + 1 \<le> 5) # map (\<lambda>k. n + 1 + int k + 1 \<le> 5) [0..<length ts]"
    by (simp add: upt_conv_Cons map_Suc_upt [symmetric] add.commute add.left_commute del: upt_Suc)
  have final: "st'\<lparr>request_count := Some (n + 1 + int (length ts)),
                   last_request_time := Some (last (t # ts))\<rparr> =
               st\<lparr>request_count := Some (n + int (length (t # ts))),
                  last_request_time := Some (last (l # t # ts))\<rparr>"
    by (simp add: st'_def add.commute add.left_commute)
  have "check_rate_limit_seq (t # ts) st =
      Inr ((n + 1 \<le> 5) # map (\<lambda>k. n + 1 + int k + 1 \<le> 5) [0..<length ts],
           st'\<lparr>request_count := Some (n + 1 + int (length ts)),
               last_request_time := Some (last (t # ts))\<rparr>)"
    by (simp only: check_rate_limit_seq.simps step tail sum.case prod.case)
  then show ?case by (simp only: shift final)
qed

text \<open>
  Claim C1, as amended. With both session keys present, a call at time \<open>t\<close> resets the
  count to 0 when more than 60 seconds have passed since \<open>last_request_time\<close>, then
  increments the count, stores \<open>t\<close> as the new \<open>last_request_time\<close> (on every call, not
  only on a reset) and is allowed iff the new count is at most 5. So a call more than 60
  seconds after the previous call is allowed and leaves the count at 1, and in a run of
  calls each at most 60 seconds after the previous one the \<open>k\<close>-th call (from 0) is allowed
  iff \<open>n + k + 1 \<le> 5\<close>: starting from a count of 0, the 6th and all later calls are
  denied. With \<open>last_request_time\<close> absent the call behaves as from time 0 and count 0.
\<close>

theorem check_rate_limit_gap_window:
  "(last_request_time st = Some l \<and> request_count st = Some n \<longrightarrow>
      check_rate_limit t st =
        Inr ((if t - l > 60 then 0 else n) + 1 \<le> 5,
             st\<lparr>request_count := Some ((if t - l > 60 then 0 else n) + 1),
                last_request_time := Some t\<rparr>,
             if (if t - l > 60 then 0 else n) + 1 \<le> 5 then []
             else [StError ''Rate limit exceeded. Please wait a minute before generating another image.''])
      \<and> (t - l > 60 \<longrightarrow>
           check_rate_limit t st =
             Inr (True, st\<lparr>request_count := Some 1, last_request_time := Some t\<rparr>, []))
      \<and> (close_calls l ts \<longrightarrow>
           check_rate_limit_seq ts st =
             Inr (map (\<lambda>k. n + int k + 1 \<le> 5) [0..<length ts],
                  st\<lparr>request_count := Some (n + int (length ts)),
                     last_request_time := Some (last (l # ts))\<rparr>)))
   \<and> (last_request_time st = None \<longrightarrow>
        check_rate_limit t st =
          check_rate_limit t (st\<lparr>last_request_time := Some 0, request_count := Some 0\<rparr>))"
proof (intro conjI impI)
  assume a: "last_request_time st = Some l \<and> request_count st = Some n"
  then show "check_rate_limit t st =
        Inr ((if t - l > 60 then 0 else n) + 1 \<le> 5,
             st\<lparr>request_count := Some ((if t - l > 60 then 0 else n) + 1),
                last_request_time := Some t\<rparr>,
             if (if t - l > 60 then 0 else n) + 1 \<le> 5 then []
             else [StError ''Rate limit exceeded. Please wait a minute before generating another image.''])"
    by (simp add: check_rate_limit_present)
  {
    assume "t - l > 60"
    with a show "check_rate_limit t st =
        Inr (True, st\<lparr>request_count := Some 1, last_request_time := Some t\<rparr>, [])"
      by (simp add: check_rate_limit_present)
  }
  {
    assume "close_calls l ts"
    with a show "check_rate_limit_seq ts st =
             Inr (map (\<lambda>k. n + int k + 1 \<le> 5) [0..<length ts],
                  st\<lparr>request_count := Some (n + int (length ts)),
                     last_request_time := Some (last (l # ts))\<rparr>)"
      by (simp add: check_rate_limit_seq_close)
  }
next
  assume "last_request_time st = None"
  then show "check_rate_limit t st =
      check_rate_limit t (st\<lparr>last_request_time := Some 0, request_count := Some 0\<rparr>)"
    by (simp add: check_rate_limit_def Let_def)
qed

text \<open>
  The theorem at concrete states: a call 61 seconds after the last one resets a count of 5
  and is allowed with count 1; six calls ten seconds apart in a fresh session give five
  allowed calls and one denial.
\<close>

theorem check_rate_limit_gap_window_witness:
  "check_rate_limit 1061
     \<lparr>demo_mode = Some False, last_request_time = Some 1000, request_count = Some 5\<rparr>
     = Inr (True, \<lparr>demo_mode = Some False, last_request_time = Some 1061, request_count = Some 1\<rparr>, [])
   \<and> check_rate_limit_seq [1010, 1020, 1030, 1040, 1050, 1060]
        \<lparr>demo_mode = Some False, last_request_time = Some 1000, request_count = Some 0\<rparr>
      = Inr ([True, True, True, True, True, False],
             \<lparr>demo_mode = Some False, last_request_time = Some 1060, request_count = Some 6\<rparr>)"
proof -
  have a: "check_rate_limit 1061
     \<lparr>demo_mode = Some False, last_request_time = Some 1000, request_count = Some 5\<rparr>
     = Inr (True, \<lparr>demo_mode = Some False, last_request_time = Some 1061, request_count = Some 1\<rparr>, [])"
    using check_rate_limit_gap_window
      [of "\<lparr>demo_mode = Some False, last_request_time = Some 1000, request_count = Some 5\<rparr>"
          1000 5 1061 "[]"]
    by simp
  have h1: "last_request_time
        \<lparr>demo_mode = Some False, last_request_time = Some 1000, request_count = Some 0\<rparr> = Some 1000
      \<and> request_count
        \<lparr>demo_mode = Some False, last_request_time = Some 1000, request_count = Some 0\<rparr> = Some 0"
    by simp
  have h2: "close_calls 1000 [1010, 1020, 1030, 1040, 1050, 1060]" by simp
  have "check_rate_limit_seq [1010, 1020, 1030, 1040, 1050, 1060]
        \<lparr>demo_mode = Some False, last_request_time = Some 1000, request_count = Some 0\<rparr>
      = Inr (map (\<lambda>k. 0 + int k + 1 \<le> 5) [0..<length [1010, 1020, 1030, 1040, 1050, 1060 :: real]],
             \<lparr>demo_mode = Some False, last_request_time = Some 1000, request_count = Some 0\<rparr>
               \<lparr>request_count := Some (0 + int (length [1010, 1020, 1030, 1040, 1050, 1060 :: real])),
                last_request_time := Some (last [1000, 1010, 1020, 1030, 1040, 1050, 1060])\<rparr>)"
    using check_rate_limit_gap_window
      [of "\<lparr>demo_mode = Some False, last_request_time = Some 1000, request_count = Some 0\<rparr>"
          1000 0 1010 "[1010, 1020, 1030, 1040, 1050, 1060]"] h1 h2
    by blast
  then have b: "check_rate_limit_seq [1010, 1020, 1030, 1040, 1050, 1060]
        \<lparr>demo_mode = Some False, last_request_time = Some 1000, request_count = Some 0\<rparr>
      = Inr ([True, True, True, True, True, False],
             \<lparr>demo_mode = Some False, last_request_time = Some 1060, request_count = Some 6\<rparr>)"
    by (simp add: upt_conv_Cons del: upt_Suc)
  from a b show ?thesis by (rule conjI)
qed

text \<open>
  The claim as first stated describes a fixed window (\<open>tryAcquire_spec\<close>, written from
  the wording of the specification: the window start moves only on a reset). The code
  differs on seven calls at times 1000, 1010, 1020, 1030, 1040, 1050 and 1061 in a fresh session:
  the last call comes 61 seconds after the window started at 1000, so the fixed window
  allows it and restarts the count at 1, while \<open>check_rate_limit\<close>, which moved
  \<open>last_request_time\<close> to 1050 without any reset, denies it with a count of 7.
\<close>

theorem check_rate_limit_fixed_window_counterexample:
  "check_rate_limit_seq [1000, 1010, 1020, 1030, 1040, 1050, 1061]
     \<lparr>demo_mode = Some False, last_request_time = Some 0, request_count = Some 0\<rparr>
     = Inr ([True, True, True, True, True, False, False],
            \<lparr>demo_mode = Some False, last_request_time = Some 1061, request_count = Some 7\<rparr>)
   \<and> tryAcquire_spec_seq [1000, 1010, 1020, 1030, 1040, 1050, 1061]
        \<lparr>windowStart = 0, count = 0\<rparr>
      = ([True, True, True, True, True, False, True], \<lparr>windowStart = 1061, count = 1\<rparr>)"
  by (simp add: check_rate_limit_def tryAcquire_spec_def Let_def)

section \<open>Paths\<close>

text \<open>
  Clean names: \<open>normpath\<close> leaves a slash followed by clean components as it is, so
  \<open>abspath\<close> of a clean relative name below a clean working directory is the two
  joined, and the operating system resolves both to the same node.
\<close>

lemma split_sep_single: "s \<notin> set w \<Longrightarrow> split_sep s w = [w]"
  by (induction w) auto

lemma split_sep_append: "s \<notin> set w \<Longrightarrow> split_sep s (w @ s # rest) = w # split_sep s rest"
  by (induction w) auto

lemma join_slash_Cons:
  "join ''/'' (w # ws) = (if ws = [] then w else w @ CHR ''/'' # join ''/'' ws)"
  by (cases ws) simp_all

lemma split_join_clean:
  "clean_comps cs \<Longrightarrow> cs \<noteq> [] \<Longrightarrow> split_sep CHR ''/'' (join ''/'' cs) = cs"
proof (induction cs)
  case Nil
  then show ?case by simp
next
  case (Cons w ws)
  then have w: "CHR ''/'' \<notin> set w" and rest: "clean_comps ws"
    by (simp_all add: clean_comps_def)
  show ?case
  proof (cases "ws = []")
    case True
    with w show ?thesis by (simp add: split_sep_single)
  next
    case False
    with Cons.IH [OF rest] w show ?thesis
      by (simp add: join_slash_Cons split_sep_append)
  qed
qed

lemma join_clean_head:
  assumes "clean_comps cs" and "cs \<noteq> []"
  shows "\<exists>a t. join ''/'' cs = a # t \<and> a \<noteq> CHR ''/''"
proof -
  from assms(2) obtain w ws where cs: "cs = w # ws" by (cases cs) auto
  with assms(1) have "w \<noteq> []" and "CHR ''/'' \<notin> set w" by (simp_all add: clean_comps_def)
  then obtain a w' where w: "w = a # w'" and a: "a \<noteq> CHR ''/''" by (cases w) auto
  show ?thesis using cs w a by (simp add: join_slash_Cons)
qed

lemma norm_comps_clean_id: "clean_comps cs \<Longrightarrow> norm_comps i cs new = new @ cs"
  by (induction cs arbitrary: new) (simp_all add: clean_comps_def)

lemma normpath_normal:
  assumes "i = 1 \<or> i = 2" and "clean_comps cs"
  shows "normpath (replicate i CHR ''/'' @ join ''/'' cs) = replicate i CHR ''/'' @ join ''/'' cs"
proof -
  define p where "p = replicate i CHR ''/'' @ join ''/'' cs"
  have tail: "join ''/'' cs = [] \<or> (\<exists>a t. join ''/'' cs = a # t \<and> a \<noteq> CHR ''/'')"
    using join_clean_head [OF assms(2)] by (cases "cs = []") auto
  have ne: "p \<noteq> []" using assms(1) by (auto simp add: p_def)
  have s1: "startswith p ''/''" using assms(1) by (auto simp add: p_def startswith_def)
  have s2: "(startswith p ''//'' \<and> \<not> startswith p ''///'') = (i = 2)"
    using assms(1) tail by (auto simp add: p_def startswith_def numeral_2_eq_2)
  have sp: "split_sep CHR ''/'' p = replicate i [] @ split_sep CHR ''/'' (join ''/'' cs)"
    using assms(1) by (auto simp add: p_def numeral_2_eq_2)
  have skip: "\<And>x. norm_comps i (replicate i [] @ x) [] = norm_comps i x []"
    using assms(1) by (auto simp add: numeral_2_eq_2)
  have comps: "norm_comps i (split_sep CHR ''/'' p) [] = cs"
  proof (cases "cs = []")
    case True
    then show ?thesis by (simp add: sp skip)
  next
    case False
    then show ?thesis
      by (simp add: sp skip split_join_clean [OF assms(2)] norm_comps_clean_id [OF assms(2)])
  qed
  have "normpath p = replicate i CHR ''/'' @ join ''/'' cs"
    using ne s1 s2 assms(1) comps
    by (auto simp add: normpath_def Let_def)
  then show ?thesis by (simp add: p_def)
qed

lemma clean_comps_append:
  "clean_comps (as @ bs) \<longleftrightarrow> clean_comps as \<and> clean_comps bs"
  by (simp add: clean_comps_def)

lemma join_snoc: "pre \<noteq> [] \<Longrightarrow> join sep (pre @ [c]) = join sep pre @ sep @ c"
  by (induction sep pre rule: join.induct) simp_all

lemma join_append:
  "as \<noteq> [] \<Longrightarrow> bs \<noteq> [] \<Longrightarrow> join sep (as @ bs) = join sep as @ sep @ join sep bs"
proof (induction sep as rule: join.induct)
  case (1 sep)
  then show ?case by simp
next
  case (2 sep w)
  then obtain b bs' where "bs = b # bs'" by (cases bs) auto
  then show ?case by simp
next
  case (3 sep w v ws)
  then show ?case by simp
qed

lemma join_last:
  "ws \<noteq> [] \<Longrightarrow> last ws \<noteq> [] \<Longrightarrow>
     join sep ws \<noteq> [] \<and> last (join sep ws) = last (last ws)"
  by (induction sep ws rule: join.induct) simp_all

lemma join_clean_last:
  assumes "clean_comps cs" and "cs \<noteq> []"
  shows "last (join ''/'' cs) \<noteq> CHR ''/''"
proof -
  from assms have l: "last cs \<noteq> []" and "CHR ''/'' \<notin> set (last cs)"
    using last_in_set [OF assms(2)] by (auto simp add: clean_comps_def list_all_iff)
  moreover have "last (last cs) \<in> set (last cs)" by (rule last_in_set [OF l])
  ultimately have "last (last cs) \<noteq> CHR ''/''" by metis
  then show ?thesis by (simp add: join_last [OF assms(2) l])
qed

lemma abspath_clean:
  assumes "cwd = ''/'' @ join ''/'' ccs" and "clean_comps ccs"
    and "fname = join ''/'' fcs" and "clean_comps fcs" and "fcs \<noteq> []"
  shows "abspath cwd fname = ''/'' @ join ''/'' (ccs @ fcs)"
proof -
  from join_clean_head [OF assms(4,5)] obtain a t
    where f: "fname = a # t" and a: "a \<noteq> CHR ''/''"
    by (auto simp add: assms(3))
  then have rel: "\<not> startswith fname ''/''" by (simp add: startswith_def)
  have joined: "join_path cwd fname = ''/'' @ join ''/'' (ccs @ fcs)"
  proof (cases "ccs = []")
    case True
    with rel show ?thesis by (simp add: join_path_def assms(1,3))
  next
    case False
    have "last cwd \<noteq> CHR ''/''"
      using join_clean_last [OF assms(2) False] join_clean_head [OF assms(2) False]
      by (auto simp add: assms(1))
    with rel show ?thesis
      by (simp add: join_path_def assms(1) join_append [OF False assms(5)] assms(3) [symmetric])
  qed
  have "clean_comps (ccs @ fcs)" using assms(2,4) by (simp add: clean_comps_append)
  from normpath_normal [of 1 "ccs @ fcs", OF _ this]
  have "normpath (''/'' @ join ''/'' (ccs @ fcs)) = ''/'' @ join ''/'' (ccs @ fcs)" by simp
  with rel joined show ?thesis by (simp add: abspath_def)
qed

section \<open>Resolving names in the file system\<close>

lemma split_sep_nonempty: "split_sep s xs \<noteq> []"
  by (induction xs) (auto split: list.splits)

lemma walk_append:
  "walk files cur (as @ bs) =
     (case walk files cur as of Inl err \<Rightarrow> Inl err | Inr d \<Rightarrow> walk files d bs)"
  by (induction as arbitrary: cur) (auto split: option.splits node.splits)

lemma walk_step_dir:
  "walk files cur (c # cs) = Inr p \<Longrightarrow> files cur = Some Dir"
  by (auto split: option.splits node.splits)

lemma walk_exists: "walk files cur cs = Inr p \<Longrightarrow> cs \<noteq> [] \<Longrightarrow> files p \<noteq> None"
proof (induction cs arbitrary: cur)
  case Nil
  then show ?case by simp
next
  case (Cons c cs)
  have dir: "files cur = Some Dir" by (rule walk_step_dir [OF Cons.prems(1)])
  show ?case
  proof (cases "cs = []")
    case True
    with Cons.prems(1) dir show ?thesis by (auto split: if_splits)
  next
    case False
    from Cons.prems(1) dir obtain nxt where "walk files nxt cs = Inr p"
      by (auto split: if_splits)
    from Cons.IH [OF this False] show ?thesis .
  qed
qed

lemma walk_update:
  "walk files cur cs = Inr d \<Longrightarrow> files t \<noteq> Some Dir \<Longrightarrow>
     walk (files(t \<mapsto> File b)) cur cs = Inr d"
proof (induction cs arbitrary: cur)
  case Nil
  then show ?case by simp
next
  case (Cons c cs)
  have dir: "files cur = Some Dir" by (rule walk_step_dir [OF Cons.prems(1)])
  with Cons.prems(2) have cur: "cur \<noteq> t" by auto
  show ?case
  proof (cases "c = [] \<or> c = ''.''")
    case True
    with Cons.prems(1) dir have "walk files cur cs = Inr d" by auto
    from Cons.IH [OF this Cons.prems(2)] True dir cur show ?thesis by auto
  next
    case plain: False
    show ?thesis
    proof (cases "c = ''..''")
      case True
      with Cons.prems(1) dir have par: "files (dirname cur) = Some Dir"
        and w: "walk files (dirname cur) cs = Inr d"
        by (auto split: if_splits)
      from par Cons.prems(2) have "dirname cur \<noteq> t" by auto
      with Cons.IH [OF w Cons.prems(2)] True dir cur par show ?thesis by auto
    next
      case False
      with plain Cons.prems(1) dir have ex: "files (child cur c) \<noteq> None"
        and w: "walk files (child cur c) cs = Inr d"
        by (auto split: if_splits)
      from Cons.IH [OF w Cons.prems(2)] False plain dir cur ex show ?thesis by auto
    qed
  qed
qed

lemma walk_removed:
  "walk files cur cs = Inr p \<Longrightarrow> cs \<noteq> [] \<Longrightarrow> files p = Some (File b) \<Longrightarrow>
     \<exists>err. walk (files(p := None)) cur cs = Inl err"
proof (induction cs arbitrary: cur)
  case Nil
  then show ?case by simp
next
  case (Cons c cs)
  have dir: "files cur = Some Dir" by (rule walk_step_dir [OF Cons.prems(1)])
  with Cons.prems(3) have cur: "cur \<noteq> p" by auto
  show ?case
  proof (cases "c = [] \<or> c = ''.''")
    case True
    with Cons.prems(1) dir have w: "walk files cur cs = Inr p" by auto
    with cur have "cs \<noteq> []" by (cases cs) auto
    from Cons.IH [OF w this Cons.prems(3)] True dir cur show ?thesis by auto
  next
    case plain: False
    show ?thesis
    proof (cases "c = ''..''")
      case True
      with Cons.prems(1) dir have par: "files (dirname cur) = Some Dir"
        and w: "walk files (dirname cur) cs = Inr p"
        by (auto split: if_splits)
      from par Cons.prems(3) have np: "dirname cur \<noteq> p" by auto
      with w have "cs \<noteq> []" by (cases cs) auto
      from Cons.IH [OF w this Cons.prems(3)] True dir cur par np show ?thesis by auto
    next
      case False
      with plain Cons.prems(1) dir have ex: "files (child cur c) \<noteq> None"
        and w: "walk files (child cur c) cs = Inr p"
        by (auto split: if_splits)
      show ?thesis
      proof (cases "child cur c = p")
        case True
        with False plain dir cur show ?thesis by simp
      next
        case np: False
        with w have "cs \<noteq> []" by (cases cs) auto
        from Cons.IH [OF w this Cons.prems(3)] False plain dir cur ex np show ?thesis by auto
      qed
    qed
  qed
qed

lemma child_clean:
  assumes "clean_comps pre" and "c \<noteq> []"
  shows "child (''/'' @ join ''/'' pre) c = ''/'' @ join ''/'' (pre @ [c])"
proof (cases "pre = []")
  case True
  then show ?thesis by (simp add: child_def)
next
  case False
  from join_clean_head [OF assms(1) False] have "''/'' @ join ''/'' pre \<noteq> ''/''" by auto
  then show ?thesis by (simp add: child_def join_snoc [OF False])
qed

lemma walk_clean:
  "clean_comps pre \<Longrightarrow> clean_comps cs \<Longrightarrow> walk files (''/'' @ join ''/'' pre) cs = Inr q \<Longrightarrow>
     q = ''/'' @ join ''/'' (pre @ cs)"
proof (induction cs arbitrary: pre)
  case Nil
  then show ?case by simp
next
  case (Cons c cs)
  from Cons.prems(2) have c: "c \<noteq> []" "c \<noteq> ''.''" "c \<noteq> ''..''" and rest: "clean_comps cs"
    by (simp_all add: clean_comps_def)
  have pre': "clean_comps (pre @ [c])"
    using Cons.prems(1,2) by (simp add: clean_comps_def)
  have dir: "files (''/'' @ join ''/'' pre) = Some Dir"
    by (rule walk_step_dir [OF Cons.prems(3)])
  from Cons.prems(3) dir c
  have "walk files (child (''/'' @ join ''/'' pre) c) cs = Inr q"
    by (simp split: if_splits)
  then have "walk files (''/'' @ join ''/'' (pre @ [c])) cs = Inr q"
    by (simp only: child_clean [OF Cons.prems(1) c(1)])
  from Cons.IH [OF pre' rest this] show ?case by simp
qed

lemma resolve_clean_absolute:
  assumes "cwd = ''/'' @ join ''/'' ccs" and "clean_comps ccs"
    and "fname = join ''/'' fcs" and "clean_comps fcs" and "fcs \<noteq> []"
    and "os_path_exists cwd files (abspath cwd fname)"
  shows "os_path_exists cwd files fname"
proof -
  have all: "clean_comps (ccs @ fcs)" using assms(2,4) by (simp add: clean_comps_append)
  have ne: "ccs @ fcs \<noteq> []" using assms(5) by simp
  have full: "abspath cwd fname = CHR ''/'' # join ''/'' (ccs @ fcs)"
    using abspath_clean [OF assms(1-5)] by simp
  from assms(6) obtain q where w: "walk files ''/'' (ccs @ fcs) = Inr q"
    by (auto simp add: os_path_exists_def resolve_def full startswith_def
        split_join_clean [OF all ne] split: sum.splits option.splits node.splits)
  then obtain d where d: "walk files ''/'' ccs = Inr d" and r: "walk files d fcs = Inr q"
    by (auto simp add: walk_append split: sum.splits)
  from d have "walk files (''/'' @ join ''/'' []) ccs = Inr d" by simp
  from walk_clean [OF _ assms(2) this] have "d = cwd" by (simp add: clean_comps_def assms(1))
  from join_clean_head [OF assms(4,5)] obtain a t
    where f: "fname = a # t" and a: "a \<noteq> CHR ''/''"
    by (auto simp add: assms(3))
  have "split_sep CHR ''/'' fname = fcs"
    unfolding assms(3) by (rule split_join_clean [OF assms(4,5)])
  with r \<open>d = cwd\<close> f a show ?thesis
    by (simp add: os_path_exists_def resolve_def startswith_def)
qed

lemma write_file_read_back:
  assumes "write_file cwd files path bytes = Inr files'"
  shows "read_file cwd files' path = Inr bytes"
proof -
  define start where "start = (if startswith path ''/'' then ''/'' else cwd)"
  define comps where "comps = split_sep CHR ''/'' path"
  from assms have ne: "path \<noteq> []" by (auto simp add: write_file_def split: if_splits)
  have cne: "comps \<noteq> []" unfolding comps_def by (rule split_sep_nonempty)
  from assms ne obtain d
    where w: "walk files start (butlast comps) = Inr d"
      and dir: "files d = Some Dir"
      and name: "last comps \<noteq> []" "last comps \<noteq> ''.''" "last comps \<noteq> ''..''"
      and nodir: "files (child d (last comps)) \<noteq> Some Dir"
      and files': "files' = files(child d (last comps) \<mapsto> File bytes)"
    by (auto simp add: write_file_def Let_def start_def comps_def split: sum.splits if_splits)
  have w': "walk files' start (butlast comps) = Inr d"
    unfolding files' by (rule walk_update [OF w nodir])
  from dir nodir have "d \<noteq> child d (last comps)" by auto
  with dir have dir': "files' d = Some Dir" by (simp add: files')
  have tgt: "files' (child d (last comps)) = Some (File bytes)" by (simp add: files')
  have "walk files' start (butlast comps @ [last comps]) = Inr (child d (last comps))"
    using name by (simp add: walk_append w' dir' tgt)
  then have "resolve cwd files' path = Inr (child d (last comps))"
    using ne cne by (simp add: resolve_def start_def comps_def)
  then show ?thesis by (simp add: read_file_def tgt)
qed

lemma resolve_removed:
  assumes "resolve cwd files path = Inr p" and "files p = Some (File b)"
  shows "\<not> os_path_exists cwd (files(p := None)) path"
proof -
  from assms(1) have ne: "path \<noteq> []" by (auto simp add: resolve_def split: if_splits)
  with assms(1) have w: "walk files (if startswith path ''/'' then ''/'' else cwd)
      (split_sep CHR ''/'' path) = Inr p"
    by (simp add: resolve_def)
  from walk_removed [OF w split_sep_nonempty assms(2)] ne show ?thesis
    by (auto simp add: os_path_exists_def resolve_def)
qed

lemma resolve_exists: "resolve cwd files path = Inr p \<Longrightarrow> files p \<noteq> None"
  by (auto simp add: resolve_def split: if_splits dest: walk_exists [OF _ split_sep_nonempty])

section \<open>Reading an image back\<close>

text \<open>
  Claim C2 fails on the code. \<open>get_image_base64\<close> compares the two absolute paths as
  strings, so a sibling directory whose name merely starts with \<open>generated_images\<close>
  passes the check. With the working directory \<open>/app\<close> and a file
  \<open>/app/generated_images_old/secret.png\<close>, the reference
  \<open>generated_images_old/secret.png\<close> resolves outside the blob root
  \<open>/app/generated_images\<close> (it is neither the root nor below \<open>root/\<close>), and
  the file's bytes are still read and returned encoded.
\<close>

theorem get_image_base64_prefix_escape:
  "\<not> within_root (abspath ''/app'' ''generated_images'')
        (abspath ''/app'' ''generated_images_old/secret.png'')
   \<and> get_image_base64 b64encode ''/app''
        [''/'' \<mapsto> Dir,
         ''/app'' \<mapsto> Dir,
         ''/app/generated_images'' \<mapsto> Dir,
         ''/app/generated_images_old'' \<mapsto> Dir,
         ''/app/generated_images_old/secret.png'' \<mapsto> File ''top secret'']
        ''generated_images_old/secret.png''
       = Inr (Some (b64encode ''top secret''))"
  by (simp add: get_image_base64_def within_root_def abspath_def normpath_def join_path_def
      startswith_def os_path_exists_def read_file_def resolve_def child_def Let_def)

section \<open>Image generation\<close>

subsection \<open>Fallback mode\<close>

lemma generate_image_lookup_raises:
  "secrets_get e = Inl err \<Longrightarrow> generate_image e st prompt style = (Inl err, st, [])"
  by (simp add: generate_image_def)

lemma generate_image_fallback_eq:
  assumes "secrets_get e = Inr tok"
    and "tok = None \<or> tok = Some [] \<or> demo_mode st \<noteq> Some False"
  shows "generate_image e st prompt style =
           (Inr (Some (Image_new ''RGB'' (512, 512) (73, 109, 137))),
            (if tok = None \<or> tok = Some [] then st\<lparr>demo_mode := Some True\<rparr> else st),
            (if tok = None \<or> tok = Some []
             then [StError ''Hugging Face API token not configured. Using demo mode.'']
             else []) @ [Sleep 3])"
proof (cases "tok = None \<or> tok = Some []")
  case True
  then show ?thesis by (simp add: generate_image_def assms(1) Let_def)
next
  case False
  with assms(2) have "demo_mode st \<noteq> Some False" by blast
  then have "(case demo_mode st of None \<Rightarrow> True | Some b \<Rightarrow> b)"
    by (cases "demo_mode st") auto
  with False show ?thesis by (simp add: generate_image_def assms(1) Let_def)
qed

lemma placeholder_pixels:
  "set (pixels (Image_new m (512, 512) color)) = {color}
   \<and> length (pixels (Image_new m (512, 512) color)) = 512 * 512"
  by (simp add: Image_new_def)

text \<open>
  What holds of fallback mode: when the token lookup returns, and the token is missing or
  empty or the demo flag is not explicitly false, \<open>generate_image\<close> raises nothing and
  returns, for every prompt and style, the same image (mode RGB, size 512 by 512, every
  pixel the colour (73, 109, 137)); its only effects are the optional missing-token
  message and one sleep of 3 seconds, and no HTTP request is made.
\<close>

lemma generate_image_fallback_when_lookup_returns:
  assumes "secrets_get e = Inr tok"
    and "tok = None \<or> tok = Some [] \<or> demo_mode st \<noteq> Some False"
  shows "fst (generate_image e st prompt style)
           = Inr (Some (Image_new ''RGB'' (512, 512) (73, 109, 137)))
         \<and> img_size (Image_new ''RGB'' (512, 512) (73, 109, 137)) = (512, 512)
         \<and> set (pixels (Image_new ''RGB'' (512, 512) (73, 109, 137))) = {(73, 109, 137)}
         \<and> length (pixels (Image_new ''RGB'' (512, 512) (73, 109, 137))) = 512 * 512
         \<and> snd (snd (generate_image e st prompt style))
             = (if tok = None \<or> tok = Some []
                then [StError ''Hugging Face API token not configured. Using demo mode.'']
                else []) @ [Sleep 3]
         \<and> (\<forall>url auth p. HttpPost url auth p \<notin> set (snd (snd (generate_image e st prompt style))))"
proof -
  note eq = generate_image_fallback_eq [OF assms, of prompt style]
  have "img_size (Image_new ''RGB'' (512, 512) (73, 109, 137)) = (512, 512)"
    by (simp add: Image_new_def)
  with placeholder_pixels [of "''RGB''" "(73, 109, 137)"] show ?thesis
    unfolding eq by auto
qed

text \<open>
  Claim C5 fails on the code. The first statement of \<open>generate_image\<close> looks the token
  up, and that lookup raises when no secrets file exists, which is the ordinary way of
  having no credential configured. The exception leaves the function before the demo flag
  is read: with the flag set to true and no secrets file, the call raises, returns no
  placeholder and does not sleep, while the claim has fallback mode always succeed. The
  branch right after the lookup (the message that the token is not configured and that
  demo mode is used) shows that the code means to handle a missing credential.
\<close>

theorem generate_image_fallback_lookup_raises:
  "generate_image
     \<lparr>secrets_get = Inl FileNotFoundError, post = (\<lambda>url auth p k. Inl RequestException),
      image_open = (\<lambda>b. None), py_repr = (\<lambda>v. [])\<rparr>
     \<lparr>demo_mode = Some True, last_request_time = None, request_count = None\<rparr>
     [99, 97, 116] (Some ''cartoon'')
   = (Inl FileNotFoundError,
      \<lparr>demo_mode = Some True, last_request_time = None, request_count = None\<rparr>, [])"
  by (simp add: generate_image_def)

subsection \<open>The demo flag defaults to fallback mode\<close>

text \<open>
  Claim C10. With the demo flag absent from the session, \<open>generate_image\<close> makes no
  HTTP request, and whenever the token lookup returns, whatever it returns (in particular
  a configured token), the result is the placeholder. Conversely, whenever a call makes an
  HTTP request, the flag was present and false (and the lookup returned a non-empty
  token).
\<close>

theorem generate_image_default_demo:
  "(demo_mode st = None \<longrightarrow>
      (\<forall>tok. secrets_get e = Inr tok \<longrightarrow>
         fst (generate_image e st prompt style)
           = Inr (Some (Image_new ''RGB'' (512, 512) (73, 109, 137))))
      \<and> (\<forall>url auth p. HttpPost url auth p \<notin> set (snd (snd (generate_image e st prompt style)))))
   \<and> ((\<exists>url auth p. HttpPost url auth p \<in> set (snd (snd (generate_image e st prompt style)))) \<longrightarrow>
        demo_mode st = Some False \<and> (\<exists>tok. secrets_get e = Inr (Some tok) \<and> tok \<noteq> []))"
proof (intro conjI impI allI)
  fix tok
  assume "demo_mode st = None" and tok: "secrets_get e = Inr tok"
  then have fb: "tok = None \<or> tok = Some [] \<or> demo_mode st \<noteq> Some False" by simp
  show "fst (generate_image e st prompt style)
        = Inr (Some (Image_new ''RGB'' (512, 512) (73, 109, 137)))"
    unfolding generate_image_fallback_eq [OF tok fb] by simp
next
  fix url auth p
  assume absent: "demo_mode st = None"
  show "HttpPost url auth p \<notin> set (snd (snd (generate_image e st prompt style)))"
  proof (cases "secrets_get e")
    case (Inl err)
    then show ?thesis by (simp add: generate_image_lookup_raises)
  next
    case (Inr tok)
    from absent have fb: "tok = None \<or> tok = Some [] \<or> demo_mode st \<noteq> Some False" by simp
    show ?thesis unfolding generate_image_fallback_eq [OF Inr fb] by auto
  qed
next
  assume posted: "\<exists>url auth p. HttpPost url auth p \<in> set (snd (snd (generate_image e st prompt style)))"
  from posted obtain tok where tok: "secrets_get e = Inr tok"
    by (cases "secrets_get e") (auto simp add: generate_image_lookup_raises)
  have live: "\<not> (tok = None \<or> tok = Some [] \<or> demo_mode st \<noteq> Some False)"
  proof
    assume fb: "tok = None \<or> tok = Some [] \<or> demo_mode st \<noteq> Some False"
    from posted show False unfolding generate_image_fallback_eq [OF tok fb] by auto
  qed
  then show "demo_mode st = Some False" by simp
  from live tok show "\<exists>tok. secrets_get e = Inr (Some tok) \<and> tok \<noteq> []"
    by (cases tok) auto
qed

theorem generate_image_default_demo_witness:
  "demo_mode \<lparr>demo_mode = None, last_request_time = None, request_count = None\<rparr> = None
   \<and> fst (generate_image
          \<lparr>secrets_get = Inr (Some ''hf_token''),
           post = (\<lambda>url auth p k. Inl RequestException),
           image_open = (\<lambda>b. None), py_repr = (\<lambda>v. [])\<rparr>
          \<lparr>demo_mode = None, last_request_time = None, request_count = None\<rparr>
          [99, 97, 116] (Some ''realistic''))
     = Inr (Some (Image_new ''RGB'' (512, 512) (73, 109, 137)))"
  using generate_image_default_demo
    [of "\<lparr>demo_mode = None, last_request_time = None, request_count = None\<rparr>"
        "\<lparr>secrets_get = Inr (Some ''hf_token''),
           post = (\<lambda>url auth p k. Inl RequestException),
           image_open = (\<lambda>b. None), py_repr = (\<lambda>v. [])\<rparr>"
        "[99, 97, 116]" "Some ''realistic''"]
  by simp

subsection \<open>Live mode: statuses, retries and the error path\<close>

lemma generate_image_live_eq:
  assumes "secrets_get e = Inr (Some tok)" and "tok \<noteq> []" and "demo_mode st = Some False"
  shows "generate_image e st prompt style =
           (case request_loop e (''https://api-inference.huggingface.co/models/'' @ model_for style)
                   (''Bearer '' @ tok) prompt [0, 1, 2] None of
              (Inl err, effs) \<Rightarrow> (Inl err, st, effs)
            | (Inr (Returned img), effs) \<Rightarrow> (Inr (Some img), st, effs)
            | (Inr (Exhausted None), effs) \<Rightarrow> (Inl NameError, st, effs)
            | (Inr (Exhausted (Some r)), effs) \<Rightarrow>
                (Inr None, st, effs @ [StError (error_message e r)]))"
proof -
  define loop where "loop = request_loop e
      (''https://api-inference.huggingface.co/models/'' @ model_for style)
      (''Bearer '' @ tok) prompt [0, 1, 2] None"
  have unfolded: "generate_image e st prompt style =
      (case loop of
         (Inl err, effs) \<Rightarrow> (Inl err, st, [] @ effs)
       | (Inr (Returned img), effs) \<Rightarrow> (Inr (Some img), st, [] @ effs)
       | (Inr (Exhausted None), effs) \<Rightarrow> (Inl NameError, st, [] @ effs)
       | (Inr (Exhausted (Some r)), effs) \<Rightarrow>
           (Inr None, st, [] @ effs @ [StError (error_message e r)]))"
    using assms by (simp add: generate_image_def Let_def loop_def)
  obtain res effs where l: "loop = (res, effs)" by (cases loop)
  show ?thesis
  proof (cases res)
    case (Inl err)
    with l show ?thesis unfolding unfolded loop_def [symmetric] by simp
  next
    case (Inr ex)
    show ?thesis
    proof (cases ex)
      case (Returned img)
      with l Inr show ?thesis unfolding unfolded loop_def [symmetric] by simp
    next
      case (Exhausted last_response)
      with l Inr show ?thesis unfolding unfolded loop_def [symmetric]
        by (cases last_response) simp_all
    qed
  qed
qed

text \<open>
  Claim C3, as amended. In live mode (the lookup returns a non-empty token and the demo
  flag is explicitly false), with the server answering the \<open>k\<close>-th request by \<open>r k\<close>,
  \<open>generate_image\<close> behaves as follows, \<open>P\<close> standing for one HTTP POST of the prompt:
  \<^item> status 200 at the first attempt whose status is not 429 (attempt 0, 1 or 2), after the
    effects \<open>P\<close>, \<open>P, Sleep 1, P\<close> or \<open>P, Sleep 1, P, Sleep 2, P\<close>: when the body
    decodes as an image, that image is returned and no message is shown; when it does
    not, the decoder's exception leaves the function (no message, nothing returned);
  \<^item> status 429 at all three attempts: three requests with sleeps of 1, 2 and 4 seconds,
    then the error path with the last response;
  \<^item> any other status at attempt 0, 1 or 2 (429 before it): no further request, and the
    error path with that response;
  \<^item> the error path shows one \<open>st.error\<close> message and returns \<open>None\<close>; the message is
    built from the \<open>error\<close> field of the JSON body when the body is a JSON object, and is
    the generic API-error text otherwise; both end with the status code.
\<close>

theorem generate_image_live:
  assumes "secrets_get e = Inr (Some tok)" and "tok \<noteq> []" and "demo_mode st = Some False"
    and "url = ''https://api-inference.huggingface.co/models/'' @ model_for style"
    and "auth = ''Bearer '' @ tok"
    and "\<forall>k<3. post e url auth prompt k = Inr (r k)"
    and "P = HttpPost url auth prompt"
  shows
    "(status_code (r 0) = 200 \<and> image_open e (content (r 0)) = Some img \<longrightarrow>
        generate_image e st prompt style = (Inr (Some img), st, [P]))
     \<and> (status_code (r 0) = 200 \<and> image_open e (content (r 0)) = None \<longrightarrow>
        generate_image e st prompt style = (Inl UnidentifiedImageError, st, [P]))
     \<and> (status_code (r 0) = 429 \<and> status_code (r 1) = 200
          \<and> image_open e (content (r 1)) = Some img \<longrightarrow>
        generate_image e st prompt style = (Inr (Some img), st, [P, Sleep 1, P]))
     \<and> (status_code (r 0) = 429 \<and> status_code (r 1) = 200
          \<and> image_open e (content (r 1)) = None \<longrightarrow>
        generate_image e st prompt style = (Inl UnidentifiedImageError, st, [P, Sleep 1, P]))
     \<and> (status_code (r 0) = 429 \<and> status_code (r 1) = 429 \<and> status_code (r 2) = 200
          \<and> image_open e (content (r 2)) = Some img \<longrightarrow>
        generate_image e st prompt style = (Inr (Some img), st, [P, Sleep 1, P, Sleep 2, P]))
     \<and> (status_code (r 0) = 429 \<and> status_code (r 1) = 429 \<and> status_code (r 2) = 200
          \<and> image_open e (content (r 2)) = None \<longrightarrow>
        generate_image e st prompt style =
          (Inl UnidentifiedImageError, st, [P, Sleep 1, P, Sleep 2, P]))
     \<and> (status_code (r 0) = 429 \<and> status_code (r 1) = 429 \<and> status_code (r 2) = 429 \<longrightarrow>
        generate_image e st prompt style =
          (Inr None, st,
           [P, Sleep 1, P, Sleep 2, P, Sleep 4, StError (error_message e (r 2))]))
     \<and> (status_code (r 0) \<noteq> 200 \<and> status_code (r 0) \<noteq> 429 \<longrightarrow>
        generate_image e st prompt style =
          (Inr None, st, [P, StError (error_message e (r 0))]))
     \<and> (status_code (r 0) = 429 \<and> status_code (r 1) \<noteq> 200 \<and> status_code (r 1) \<noteq> 429 \<longrightarrow>
        generate_image e st prompt style =
          (Inr None, st, [P, Sleep 1, P, StError (error_message e (r 1))]))
     \<and> (status_code (r 0) = 429 \<and> status_code (r 1) = 429
          \<and> status_code (r 2) \<noteq> 200 \<and> status_code (r 2) \<noteq> 429 \<longrightarrow>
        generate_image e st prompt style =
          (Inr None, st, [P, Sleep 1, P, Sleep 2, P, StError (error_message e (r 2))]))
     \<and> (\<forall>resp kvs. json resp = Some (JObject kvs) \<longrightarrow>
          error_message e resp =
            ''Failed to generate image: ''
              @ (case map_of kvs ''error'' of
                   None \<Rightarrow> ''Unknown error''
                 | Some (JString s) \<Rightarrow> s
                 | Some v \<Rightarrow> py_repr e v)
              @ '' (Status code: '' @ str_int (status_code resp) @ '')'')
     \<and> (\<forall>resp. (\<forall>kvs. json resp \<noteq> Some (JObject kvs)) \<longrightarrow>
          error_message e resp =
            ''Failed to generate image: API error (Status code: ''
              @ str_int (status_code resp) @ '')'')"
proof -
  from assms(6) have p0: "post e url auth prompt 0 = Inr (r 0)"
    and p1: "post e url auth prompt (Suc 0) = Inr (r 1)"
    and p2: "post e url auth prompt 2 = Inr (r 2)"
    by simp_all
  note live = generate_image_live_eq [OF assms(1,2,3), of prompt style,
      folded assms(4) assms(5)]
  have a0: "status_code (r 0) = 200 \<and> image_open e (content (r 0)) = Some img \<longrightarrow>
        generate_image e st prompt style = (Inr (Some img), st, [P])"
    by (simp add: live p0 assms(7))
  have n0: "status_code (r 0) = 200 \<and> image_open e (content (r 0)) = None \<longrightarrow>
        generate_image e st prompt style = (Inl UnidentifiedImageError, st, [P])"
    by (simp add: live p0 assms(7))
  have a1: "status_code (r 0) = 429 \<and> status_code (r 1) = 200
          \<and> image_open e (content (r 1)) = Some img \<longrightarrow>
        generate_image e st prompt style = (Inr (Some img), st, [P, Sleep 1, P])"
    by (simp add: live p0 p1 assms(7))
  have n1: "status_code (r 0) = 429 \<and> status_code (r 1) = 200
          \<and> image_open e (content (r 1)) = None \<longrightarrow>
        generate_image e st prompt style = (Inl UnidentifiedImageError, st, [P, Sleep 1, P])"
    by (simp add: live p0 p1 assms(7))
  have a2: "status_code (r 0) = 429 \<and> status_code (r 1) = 429 \<and> status_code (r 2) = 200
          \<and> image_open e (content (r 2)) = Some img \<longrightarrow>
        generate_image e st prompt style = (Inr (Some img), st, [P, Sleep 1, P, Sleep 2, P])"
    by (simp add: live p0 p1 p2 assms(7))
  have n2: "status_code (r 0) = 429 \<and> status_code (r 1) = 429 \<and> status_code (r 2) = 200
          \<and> image_open e (content (r 2)) = None \<longrightarrow>
        generate_image e st prompt style =
          (Inl UnidentifiedImageError, st, [P, Sleep 1, P, Sleep 2, P])"
    by (simp add: live p0 p1 p2 assms(7))
  have a3: "status_code (r 0) = 429 \<and> status_code (r 1) = 429 \<and> status_code (r 2) = 429 \<longrightarrow>
        generate_image e st prompt style =
          (Inr None, st,
           [P, Sleep 1, P, Sleep 2, P, Sleep 4, StError (error_message e (r 2))])"
    by (simp add: live p0 p1 p2 assms(7))
  have b0: "status_code (r 0) \<noteq> 200 \<and> status_code (r 0) \<noteq> 429 \<longrightarrow>
        generate_image e st prompt style =
          (Inr None, st, [P, StError (error_message e (r 0))])"
    by (simp add: live p0 assms(7))
  have b1: "status_code (r 0) = 429 \<and> status_code (r 1) \<noteq> 200 \<and> status_code (r 1) \<noteq> 429 \<longrightarrow>
        generate_image e st prompt style =
          (Inr None, st, [P, Sleep 1, P, StError (error_message e (r 1))])"
    by (simp add: live p0 p1 assms(7))
  have b2: "status_code (r 0) = 429 \<and> status_code (r 1) = 429
          \<and> status_code (r 2) \<noteq> 200 \<and> status_code (r 2) \<noteq> 429 \<longrightarrow>
        generate_image e st prompt style =
          (Inr None, st, [P, Sleep 1, P, Sleep 2, P, StError (error_message e (r 2))])"
    by (simp add: live p0 p1 p2 assms(7))
  have m1: "\<forall>resp kvs. json resp = Some (JObject kvs) \<longrightarrow>
          error_message e resp =
            ''Failed to generate image: ''
              @ (case map_of kvs ''error'' of
                   None \<Rightarrow> ''Unknown error''
                 | Some (JString s) \<Rightarrow> s
                 | Some v \<Rightarrow> py_repr e v)
              @ '' (Status code: '' @ str_int (status_code resp) @ '')''"
    by (simp add: error_message_def)
  have m2: "\<forall>resp. (\<forall>kvs. json resp \<noteq> Some (JObject kvs)) \<longrightarrow>
          error_message e resp =
            ''Failed to generate image: API error (Status code: ''
              @ str_int (status_code resp) @ '')''"
    by (auto simp add: error_message_def split: option.splits json.splits)
  from a0 n0 a1 n1 a2 n2 a3 b0 b1 b2 m1 m2 show ?thesis by (intro conjI)
qed

text \<open>
  The theorem on two scripts. Statuses 429, 429, 200 with a body that decodes: three
  requests, sleeps of 1 and 2 seconds, and the decoded image. Statuses 429, 429, 503 with
  a JSON error body: the same requests and sleeps, then the parsed message with the status
  code, and no image.
\<close>

theorem generate_image_live_witness:
  "generate_image
     \<lparr>secrets_get = Inr (Some ''hf_token''),
      post = (\<lambda>url auth p k.
        Inr \<lparr>status_code = (if k < 2 then 429 else 200), content = ''PNG'', json = None\<rparr>),
      image_open = (\<lambda>b. if b = ''PNG''
        then Some \<lparr>mode = ''RGB'', img_size = (1, 1), pixels = [(0, 0, 0)]\<rparr> else None),
      py_repr = (\<lambda>v. [])\<rparr>
     \<lparr>demo_mode = Some False, last_request_time = None, request_count = None\<rparr>
     [99, 97, 116] (Some ''cartoon'')
   = (Inr (Some \<lparr>mode = ''RGB'', img_size = (1, 1), pixels = [(0, 0, 0)]\<rparr>),
      \<lparr>demo_mode = Some False, last_request_time = None, request_count = None\<rparr>,
      [HttpPost ''https://api-inference.huggingface.co/models/black-forest-labs/FLUX.1-dev''
         ''Bearer hf_token'' [99, 97, 116],
       Sleep 1,
       HttpPost ''https://api-inference.huggingface.co/models/black-forest-labs/FLUX.1-dev''
         ''Bearer hf_token'' [99, 97, 116],
       Sleep 2,
       HttpPost ''https://api-inference.huggingface.co/models/black-forest-labs/FLUX.1-dev''
         ''Bearer hf_token'' [99, 97, 116]])
   \<and> generate_image
     \<lparr>secrets_get = Inr (Some ''hf_token''),
      post = (\<lambda>url auth p k.
        Inr \<lparr>status_code = (if k < 2 then 429 else 503), content = [],
             json = Some (JObject [(''error'', JString ''Model is loading'')])\<rparr>),
      image_open = (\<lambda>b. None), py_repr = (\<lambda>v. [])\<rparr>
     \<lparr>demo_mode = Some False, last_request_time = None, request_count = None\<rparr>
     [99, 97, 116] (Some ''cartoon'')
   = (Inr None,
      \<lparr>demo_mode = Some False, last_request_time = None, request_count = None\<rparr>,
      [HttpPost ''https://api-inference.huggingface.co/models/black-forest-labs/FLUX.1-dev''
         ''Bearer hf_token'' [99, 97, 116],
       Sleep 1,
       HttpPost ''https://api-inference.huggingface.co/models/black-forest-labs/FLUX.1-dev''
         ''Bearer hf_token'' [99, 97, 116],
       Sleep 2,
       HttpPost ''https://api-inference.huggingface.co/models/black-forest-labs/FLUX.1-dev''
         ''Bearer hf_token'' [99, 97, 116],
       StError ''Failed to generate image: Model is loading (Status code: 503)''])"
proof -
  define st where
    "st = \<lparr>demo_mode = Some False, last_request_time = None, request_count = None\<rparr>"
  define tiny where "tiny = \<lparr>mode = ''RGB'', img_size = (1, 1), pixels = [(0, 0, 0)]\<rparr>"
  have h2: "''hf_token'' \<noteq> []" and h3: "demo_mode st = Some False"
    by (simp_all add: st_def)
  have first: "generate_image
     \<lparr>secrets_get = Inr (Some ''hf_token''),
      post = (\<lambda>url auth p k.
        Inr \<lparr>status_code = (if k < 2 then 429 else 200), content = ''PNG'', json = None\<rparr>),
      image_open = (\<lambda>b. if b = ''PNG'' then Some tiny else None),
      py_repr = (\<lambda>v. [])\<rparr> st [99, 97, 116] (Some ''cartoon'')
   = (Inr (Some tiny), st,
      [HttpPost ''https://api-inference.huggingface.co/models/black-forest-labs/FLUX.1-dev''
         ''Bearer hf_token'' [99, 97, 116],
       Sleep 1,
       HttpPost ''https://api-inference.huggingface.co/models/black-forest-labs/FLUX.1-dev''
         ''Bearer hf_token'' [99, 97, 116],
       Sleep 2,
       HttpPost ''https://api-inference.huggingface.co/models/black-forest-labs/FLUX.1-dev''
         ''Bearer hf_token'' [99, 97, 116]])"
  proof -
    define e where "e = \<lparr>secrets_get = Inr (Some ''hf_token''),
      post = (\<lambda>url auth p k.
        Inr \<lparr>status_code = (if k < 2 then 429 else 200), content = ''PNG'', json = None\<rparr>),
      image_open = (\<lambda>b. if b = ''PNG'' then Some tiny else None),
      py_repr = (\<lambda>v. [])\<rparr>"
    define r where "r = (\<lambda>k::nat.
        \<lparr>status_code = (if k < 2 then 429 else 200), content = ''PNG'', json = None\<rparr>)"
    have h1: "secrets_get e = Inr (Some ''hf_token'')" by (simp add: e_def)
    have h6: "\<forall>k<3. post e
        (''https://api-inference.huggingface.co/models/'' @ model_for (Some ''cartoon''))
        (''Bearer '' @ ''hf_token'') [99, 97, 116] k = Inr (r k)"
      by (simp add: e_def r_def)
    note T = generate_image_live [OF h1 h2 h3 refl refl h6 refl, where img = tiny]
    have "status_code (r 0) = 429 \<and> status_code (r 1) = 429 \<and> status_code (r 2) = 200
        \<and> image_open e (content (r 2)) = Some tiny"
      by (simp add: r_def e_def)
    with T [THEN conjunct2, THEN conjunct2, THEN conjunct2, THEN conjunct2, THEN conjunct1, THEN mp]
    have "generate_image e st [99, 97, 116] (Some ''cartoon'') =
      (Inr (Some tiny), st,
       [HttpPost (''https://api-inference.huggingface.co/models/'' @ model_for (Some ''cartoon''))
          (''Bearer '' @ ''hf_token'') [99, 97, 116],
        Sleep 1,
        HttpPost (''https://api-inference.huggingface.co/models/'' @ model_for (Some ''cartoon''))
          (''Bearer '' @ ''hf_token'') [99, 97, 116],
        Sleep 2,
        HttpPost (''https://api-inference.huggingface.co/models/'' @ model_for (Some ''cartoon''))
          (''Bearer '' @ ''hf_token'') [99, 97, 116]])"
      .
    then show ?thesis by (simp add: e_def [symmetric] model_for_def)
  qed
  have second: "generate_image
     \<lparr>secrets_get = Inr (Some ''hf_token''),
      post = (\<lambda>url auth p k.
        Inr \<lparr>status_code = (if k < 2 then 429 else 503), content = [],
             json = Some (JObject [(''error'', JString ''Model is loading'')])\<rparr>),
      image_open = (\<lambda>b. None), py_repr = (\<lambda>v. [])\<rparr> st [99, 97, 116] (Some ''cartoon'')
   = (Inr None, st,
      [HttpPost ''https://api-inference.huggingface.co/models/black-forest-labs/FLUX.1-dev''
         ''Bearer hf_token'' [99, 97, 116],
       Sleep 1,
       HttpPost ''https://api-inference.huggingface.co/models/black-forest-labs/FLUX.1-dev''
         ''Bearer hf_token'' [99, 97, 116],
       Sleep 2,
       HttpPost ''https://api-inference.huggingface.co/models/black-forest-labs/FLUX.1-dev''
         ''Bearer hf_token'' [99, 97, 116],
       StError ''Failed to generate image: Model is loading (Status code: 503)''])"
  proof -
    define e where "e = \<lparr>secrets_get = Inr (Some ''hf_token''),
      post = (\<lambda>url auth p k.
        Inr \<lparr>status_code = (if k < 2 then 429 else 503), content = [],
             json = Some (JObject [(''error'', JString ''Model is loading'')])\<rparr>),
      image_open = (\<lambda>b. None), py_repr = (\<lambda>v. [])\<rparr>"
    define r where "r = (\<lambda>k::nat. \<lparr>status_code = (if k < 2 then 429 else 503), content = [],
             json = Some (JObject [(''error'', JString ''Model is loading'')])\<rparr>)"
    have h1: "secrets_get e = Inr (Some ''hf_token'')" by (simp add: e_def)
    have h6: "\<forall>k<3. post e
        (''https://api-inference.huggingface.co/models/'' @ model_for (Some ''cartoon''))
        (''Bearer '' @ ''hf_token'') [99, 97, 116] k = Inr (r k)"
      by (simp add: e_def r_def)
    note T = generate_image_live [OF h1 h2 h3 refl refl h6 refl]
    have statuses: "status_code (r 0) = 429 \<and> status_code (r 1) = 429
        \<and> status_code (r 2) \<noteq> 200 \<and> status_code (r 2) \<noteq> 429"
      by (simp add: r_def)
    have js: "json (r 2) = Some (JObject [(''error'', JString ''Model is loading'')])"
      by (simp add: r_def)
    from T [THEN conjunct2, THEN conjunct2, THEN conjunct2, THEN conjunct2, THEN conjunct2, THEN conjunct2, THEN conjunct2, THEN conjunct2, THEN conjunct2, THEN conjunct1, THEN mp, OF statuses]
    have res: "generate_image e st [99, 97, 116] (Some ''cartoon'') =
        (Inr None, st,
         [HttpPost (''https://api-inference.huggingface.co/models/'' @ model_for (Some ''cartoon''))
            (''Bearer '' @ ''hf_token'') [99, 97, 116],
          Sleep 1,
          HttpPost (''https://api-inference.huggingface.co/models/'' @ model_for (Some ''cartoon''))
            (''Bearer '' @ ''hf_token'') [99, 97, 116],
          Sleep 2,
          HttpPost (''https://api-inference.huggingface.co/models/'' @ model_for (Some ''cartoon''))
            (''Bearer '' @ ''hf_token'') [99, 97, 116],
          StError (error_message e (r 2))])"
      .
    from T [THEN conjunct2, THEN conjunct2, THEN conjunct2, THEN conjunct2, THEN conjunct2, THEN conjunct2, THEN conjunct2, THEN conjunct2, THEN conjunct2, THEN conjunct2, THEN conjunct1, THEN spec, THEN spec, THEN mp, OF js]
    have msg: "error_message e (r 2) =
        ''Failed to generate image: ''
          @ (case map_of [(''error'', JString ''Model is loading'')] ''error'' of
               None \<Rightarrow> ''Unknown error''
             | Some (JString s) \<Rightarrow> s
             | Some v \<Rightarrow> py_repr e v)
          @ '' (Status code: '' @ str_int (status_code (r 2)) @ '')''"
      .
    have "str_int (status_code (r 2)) = ''503''"
      by (simp add: r_def str_int_def digit_char_def)
    with msg have "error_message e (r 2) =
        ''Failed to generate image: Model is loading (Status code: 503)''"
      by simp
    with res show ?thesis
      by (simp add: e_def [symmetric] model_for_def)
  qed
  from first second show ?thesis unfolding st_def tiny_def by (rule conjI)
qed

text \<open>
  The claim as first stated (a 200 returns the decoded image as success) fails when the
  body of the 200 response is no image: the service answers the first request with status
  200 and an HTML page, decoding raises, and the call ends with that exception after one
  request, without an image and without an error message.
\<close>

theorem generate_image_live_undecodable_counterexample:
  "generate_image
     \<lparr>secrets_get = Inr (Some ''hf_token''),
      post = (\<lambda>url auth p k. Inr \<lparr>status_code = 200, content = ''<html>'', json = None\<rparr>),
      image_open = (\<lambda>b. None), py_repr = (\<lambda>v. [])\<rparr>
     \<lparr>demo_mode = Some False, last_request_time = None, request_count = None\<rparr>
     [99, 97, 116] (Some ''cartoon'')
   = (Inl UnidentifiedImageError,
      \<lparr>demo_mode = Some False, last_request_time = None, request_count = None\<rparr>,
      [HttpPost ''https://api-inference.huggingface.co/models/black-forest-labs/FLUX.1-dev''
         ''Bearer hf_token'' [99, 97, 116]])"
  by (simp add: generate_image_def model_for_def Let_def)

section \<open>The record store\<close>

subsection \<open>Saving an image\<close>

lemma fold_max_ge_init: "s \<le> fold max xs (s::int)"
proof (induction xs arbitrary: s)
  case Nil
  show ?case by simp
next
  case (Cons x xs)
  have "s \<le> max x s" by simp
  also have "max x s \<le> fold max xs (max x s)" by (rule Cons.IH)
  finally show ?case by simp
qed

lemma fold_max_ge_elem: "x \<in> set xs \<Longrightarrow> x \<le> fold max xs (s::int)"
proof (induction xs arbitrary: s)
  case Nil
  then show ?case by simp
next
  case (Cons y ys)
  show ?case
  proof (cases "x = y")
    case True
    have "x \<le> max y s" using True by simp
    also have "max y s \<le> fold max ys (max y s)" by (rule fold_max_ge_init)
    finally show ?thesis by simp
  next
    case False
    with Cons.prems have "x \<in> set ys" by simp
    then show ?thesis using Cons.IH by simp
  qed
qed

lemma autoincrement_rowid_fresh:
  "r \<in> set (prompts_table w) \<Longrightarrow> p_id r < autoincrement_rowid w"
  using fold_max_ge_elem [of "p_id r" "map p_id (prompts_table w)" "sqlite_sequence w"]
  by (simp add: autoincrement_rowid_def)

text \<open>
  Claim C4. With \<open>fname\<close> the blob name derived from the timestamp and \<open>res\<close> the outcome
  of \<open>save_image\<close>:
  \<^item> if either dimension of the image exceeds 4096, the call shows the too-large message and
    returns \<open>(None, None)\<close>, and the world (files and table) is unchanged;
  \<^item> otherwise the blob is written first: if that write raises, the error propagates and the
    world is unchanged (no row inserted); if it succeeds, one row with a fresh id,
    the given prompt and style, the blob name and no score or feedback is appended, and the
    call returns the blob name and that id;
  \<^item> so whenever the table has changed, the blob is on disk: reading the blob name
    gives the bytes written.
\<close>

theorem save_image_cases:
  assumes "fname = ''generated_images/image_'' @ timestamp @ ''.png''"
    and "res = save_image cwd png timestamp now w img prompt expected_style"
  shows
    "(fst (img_size img) > 4096 \<or> snd (img_size img) > 4096 \<longrightarrow>
        res = (Inr (None, None), w, [StError ''Image dimensions are too large.'']))
     \<and> (fst (img_size img) \<le> 4096 \<and> snd (img_size img) \<le> 4096 \<longrightarrow>
          (\<forall>err. write_file cwd (fs w) fname (png img) = Inl err \<longrightarrow> res = (Inl err, w, []))
          \<and> (\<forall>files'. write_file cwd (fs w) fname (png img) = Inr files' \<longrightarrow>
                res = (Inr (Some fname, Some (autoincrement_rowid w)),
                       w\<lparr>fs := files',
                         prompts_table := prompts_table w @
                           [\<lparr>p_id = autoincrement_rowid w, p_prompt = prompt,
                             p_expected_style = expected_style, p_filename = fname,
                             p_created_at = now, p_score = None, p_feedback = None\<rparr>],
                         sqlite_sequence := autoincrement_rowid w\<rparr>,
                       [])
                \<and> read_file cwd files' fname = Inr (png img)
                \<and> (\<forall>r \<in> set (prompts_table w). p_id r < autoincrement_rowid w)))
     \<and> (prompts_table (fst (snd res)) \<noteq> prompts_table w \<longrightarrow>
          read_file cwd (fs (fst (snd res))) fname = Inr (png img))"
proof (intro conjI impI allI)
  assume "fst (img_size img) > 4096 \<or> snd (img_size img) > 4096"
  then show "res = (Inr (None, None), w, [StError ''Image dimensions are too large.''])"
    by (auto simp add: assms(2) save_image_def)
next
  fix err
  assume "fst (img_size img) \<le> 4096 \<and> snd (img_size img) \<le> 4096"
    and "write_file cwd (fs w) fname (png img) = Inl err"
  then show "res = (Inl err, w, [])"
    by (simp add: assms save_image_def Let_def)
next
  fix files'
  assume small: "fst (img_size img) \<le> 4096 \<and> snd (img_size img) \<le> 4096"
    and wr: "write_file cwd (fs w) fname (png img) = Inr files'"
  from small wr show "res = (Inr (Some fname, Some (autoincrement_rowid w)),
                       w\<lparr>fs := files',
                         prompts_table := prompts_table w @
                           [\<lparr>p_id = autoincrement_rowid w, p_prompt = prompt,
                             p_expected_style = expected_style, p_filename = fname,
                             p_created_at = now, p_score = None, p_feedback = None\<rparr>],
                         sqlite_sequence := autoincrement_rowid w\<rparr>,
                       [])"
    by (simp add: assms save_image_def Let_def)
  from wr show "read_file cwd files' fname = Inr (png img)"
    by (rule write_file_read_back)
  show "\<forall>r \<in> set (prompts_table w). p_id r < autoincrement_rowid w"
    by (simp add: autoincrement_rowid_fresh)
next
  assume changed: "prompts_table (fst (snd res)) \<noteq> prompts_table w"
  show "read_file cwd (fs (fst (snd res))) fname = Inr (png img)"
  proof (cases "fst (img_size img) > 4096 \<or> snd (img_size img) > 4096")
    case True
    with changed show ?thesis by (auto simp add: assms(2) save_image_def)
  next
    case False
    show ?thesis
    proof (cases "write_file cwd (fs w) fname (png img)")
      case (Inl err)
      with False changed show ?thesis by (simp add: assms save_image_def Let_def)
    next
      case (Inr files')
      with False write_file_read_back [OF Inr] show ?thesis
        by (simp add: assms save_image_def Let_def)
    qed
  qed
qed

text \<open>
  The theorem at two inputs, in a world holding the directory \<open>/app/generated_images\<close>,
  one earlier row with id 6 and the sequence value 7: an image of 5000 by 10 is rejected
  and changes nothing; an image of 2 by 1 is written and gets the id 8.
\<close>

theorem save_image_cases_witness:
  "save_image ''/app'' (\<lambda>i. ''PNG'') ''20240101_120000'' 1704110400
     \<lparr>fs = [''/'' \<mapsto> Dir, ''/app'' \<mapsto> Dir, ''/app/generated_images'' \<mapsto> Dir],
      prompts_table = [\<lparr>p_id = 6, p_prompt = [97], p_expected_style = ''cartoon'',
                        p_filename = ''generated_images/image_20231231_235959.png'',
                        p_created_at = 1704067199, p_score = Some 7, p_feedback = None\<rparr>],
      sqlite_sequence = 7\<rparr>
     \<lparr>mode = ''RGB'', img_size = (5000, 10), pixels = []\<rparr> [99, 97, 116] ''realistic''
   = (Inr (None, None),
      \<lparr>fs = [''/'' \<mapsto> Dir, ''/app'' \<mapsto> Dir, ''/app/generated_images'' \<mapsto> Dir],
       prompts_table = [\<lparr>p_id = 6, p_prompt = [97], p_expected_style = ''cartoon'',
                         p_filename = ''generated_images/image_20231231_235959.png'',
                         p_created_at = 1704067199, p_score = Some 7, p_feedback = None\<rparr>],
       sqlite_sequence = 7\<rparr>,
      [StError ''Image dimensions are too large.''])
   \<and> fst (save_image ''/app'' (\<lambda>i. ''PNG'') ''20240101_120000'' 1704110400
     \<lparr>fs = [''/'' \<mapsto> Dir, ''/app'' \<mapsto> Dir, ''/app/generated_images'' \<mapsto> Dir],
      prompts_table = [\<lparr>p_id = 6, p_prompt = [97], p_expected_style = ''cartoon'',
                        p_filename = ''generated_images/image_20231231_235959.png'',
                        p_created_at = 1704067199, p_score = Some 7, p_feedback = None\<rparr>],
      sqlite_sequence = 7\<rparr>
     \<lparr>mode = ''RGB'', img_size = (2, 1), pixels = [(0, 0, 0), (1, 1, 1)]\<rparr>
     [99, 97, 116] ''realistic'')
   = Inr (Some ''generated_images/image_20240101_120000.png'', Some 8)"
proof -
  define w where "w = \<lparr>fs = [''/'' \<mapsto> Dir, ''/app'' \<mapsto> Dir, ''/app/generated_images'' \<mapsto> Dir],
      prompts_table = [\<lparr>p_id = 6, p_prompt = [97], p_expected_style = ''cartoon'',
                        p_filename = ''generated_images/image_20231231_235959.png'',
                        p_created_at = 1704067199, p_score = Some 7, p_feedback = None\<rparr>],
      sqlite_sequence = 7\<rparr>"
  define big where "big = \<lparr>mode = ''RGB'', img_size = (5000, 10), pixels = []\<rparr>"
  define small where
    "small = \<lparr>mode = ''RGB'', img_size = (2, 1), pixels = [(0, 0, 0), (1, 1, 1)]\<rparr>"
  have "fst (img_size big) > 4096 \<or> snd (img_size big) > 4096" by (simp add: big_def)
  with save_image_cases [where cwd = "''/app''" and png = "\<lambda>i. ''PNG''"
      and timestamp = "''20240101_120000''" and now = 1704110400 and w = w and img = big
      and prompt = "[99, 97, 116]" and expected_style = "''realistic''", OF refl refl]
  have a: "save_image ''/app'' (\<lambda>i. ''PNG'') ''20240101_120000'' 1704110400 w big
      [99, 97, 116] ''realistic''
      = (Inr (None, None), w, [StError ''Image dimensions are too large.''])"
    by blast
  have sm: "fst (img_size small) \<le> 4096 \<and> snd (img_size small) \<le> 4096"
    by (simp add: small_def)
  have wr: "write_file ''/app'' (fs w) (''generated_images/image_'' @ ''20240101_120000'' @ ''.png'')
      ((\<lambda>i. ''PNG'') small)
      = Inr ((fs w)(''/app/generated_images/image_20240101_120000.png'' \<mapsto> File ''PNG''))"
    by (simp add: write_file_def startswith_def child_def w_def Let_def)
  from save_image_cases [where cwd = "''/app''" and png = "\<lambda>i. ''PNG''"
      and timestamp = "''20240101_120000''" and now = 1704110400 and w = w and img = small
      and prompt = "[99, 97, 116]" and expected_style = "''realistic''", OF refl refl] sm wr
  have "fst (save_image ''/app'' (\<lambda>i. ''PNG'') ''20240101_120000'' 1704110400 w small
      [99, 97, 116] ''realistic'')
      = Inr (Some (''generated_images/image_'' @ ''20240101_120000'' @ ''.png''),
             Some (autoincrement_rowid w))"
    by (metis fst_conv)
  moreover have "autoincrement_rowid w = 8" by (simp add: autoincrement_rowid_def w_def)
  ultimately have b: "fst (save_image ''/app'' (\<lambda>i. ''PNG'') ''20240101_120000'' 1704110400 w small
      [99, 97, 116] ''realistic'')
      = Inr (Some ''generated_images/image_20240101_120000.png'', Some 8)"
    by simp
  from a b show ?thesis unfolding w_def big_def small_def by (rule conjI)
qed

subsection \<open>Deleting an image\<close>

lemma delete_image_missing:
  assumes "resolve cwd (fs w) fname = Inl err"
  shows "delete_image cwd w prompt_id fname =
           (Inr (), w\<lparr>prompts_table := filter (\<lambda>r. p_id r \<noteq> prompt_id) (prompts_table w)\<rparr>)"
  using assms by (simp add: delete_image_def os_path_exists_def)

lemma delete_image_file:
  assumes "resolve cwd (fs w) fname = Inr p" and "fs w p = Some (File b)"
  shows "delete_image cwd w prompt_id fname =
           (Inr (),
            w\<lparr>fs := (fs w)(p := None),
              prompts_table := filter (\<lambda>r. p_id r \<noteq> prompt_id) (prompts_table w)\<rparr>)"
  using assms by (simp add: delete_image_def os_path_exists_def os_remove_def)

lemma delete_image_dir:
  assumes "resolve cwd (fs w) fname = Inr p" and "fs w p = Some Dir"
  shows "delete_image cwd w prompt_id fname = (Inl IsADirectoryError, w)"
  using assms by (simp add: delete_image_def os_path_exists_def os_remove_def)

lemma delete_image_completed:
  assumes "fst (delete_image cwd w prompt_id fname) = Inr ()"
  shows "prompts_table (snd (delete_image cwd w prompt_id fname))
           = filter (\<lambda>r. p_id r \<noteq> prompt_id) (prompts_table w)"
    and "\<not> os_path_exists cwd (fs (snd (delete_image cwd w prompt_id fname))) fname"
    and "\<not> os_path_exists cwd (fs w) fname \<Longrightarrow> fs (snd (delete_image cwd w prompt_id fname)) = fs w"
    and "resolve cwd (fs w) fname \<noteq> Inr q \<Longrightarrow> fs (snd (delete_image cwd w prompt_id fname)) q = fs w q"
proof -
  let ?w' = "snd (delete_image cwd w prompt_id fname)"
  have all: "prompts_table ?w' = filter (\<lambda>r. p_id r \<noteq> prompt_id) (prompts_table w)
      \<and> \<not> os_path_exists cwd (fs ?w') fname
      \<and> (\<not> os_path_exists cwd (fs w) fname \<longrightarrow> fs ?w' = fs w)
      \<and> (resolve cwd (fs w) fname \<noteq> Inr q \<longrightarrow> fs ?w' q = fs w q)"
  proof (cases "resolve cwd (fs w) fname")
    case (Inl err)
    then show ?thesis
      by (simp add: delete_image_missing [OF Inl] os_path_exists_def)
  next
    case (Inr p)
    from resolve_exists [OF Inr] obtain n where n: "fs w p = Some n" by auto
    show ?thesis
    proof (cases n)
      case Dir
      with assms delete_image_dir [OF Inr, of prompt_id] n show ?thesis by simp
    next
      case (File b)
      with n have f: "fs w p = Some (File b)" by simp
      from resolve_removed [OF Inr f] Inr show ?thesis
        by (simp add: delete_image_file [OF Inr f] os_path_exists_def)
    qed
  qed
  from all show "prompts_table ?w' = filter (\<lambda>r. p_id r \<noteq> prompt_id) (prompts_table w)"
    by simp
  from all show "\<not> os_path_exists cwd (fs ?w') fname" by simp
  from all show "\<not> os_path_exists cwd (fs w) fname \<Longrightarrow> fs ?w' = fs w" by simp
  from all show "resolve cwd (fs w) fname \<noteq> Inr q \<Longrightarrow> fs ?w' q = fs w q" by simp
qed

lemma find_filter_none: "find (\<lambda>r. f r = k) (filter (\<lambda>r. f r \<noteq> k) xs) = None"
  by (simp add: find_None_iff)

lemma saved_name_clean:
  assumes "CHR ''/'' \<notin> set timestamp"
  shows "''generated_images/image_'' @ timestamp @ ''.png''
           = join ''/'' [''generated_images'', ''image_'' @ timestamp @ ''.png'']"
    and "clean_comps [''generated_images'', ''image_'' @ timestamp @ ''.png'']"
  using assms by (simp_all add: clean_comps_def)

text \<open>
  Claim C8. \<open>delete_image\<close> removes the blob first and the row second. It completes
  exactly when the blob reference does not resolve to a directory; when it resolves to a
  directory, removing the blob raises and no row is deleted. When it completes, with
  \<open>w'\<close> the world it leaves:
  \<^item> the table of \<open>w'\<close> is the old table without the rows of the given id, so looking the
    id up (\<open>get_record\<close>, the lookup the specification calls \<open>get\<close>) finds nothing;
  \<^item> the blob can no longer be read under its reference: \<open>os_path_exists\<close> is false,
    opening it raises and \<open>load_image\<close> returns \<open>None\<close>; and for a reference that
    \<open>save_image\<close> writes (\<open>generated_images/image_\<close>, a timestamp without a slash,
    \<open>.png\<close>) in a clean absolute working directory, \<open>get_image_base64\<close>, which
    normalises the reference before it looks, returns \<open>None\<close> as well;
  \<^item> if the blob was already absent the files are unchanged, and a path other than the one
    the reference resolves to is never touched.
\<close>

theorem delete_image_removes:
  assumes "w' = snd (delete_image cwd w prompt_id fname)"
  shows
    "((fst (delete_image cwd w prompt_id fname) = Inr ())
        = (\<forall>p. resolve cwd (fs w) fname = Inr p \<longrightarrow> fs w p \<noteq> Some Dir))
     \<and> (\<forall>p. resolve cwd (fs w) fname = Inr p \<and> fs w p = Some Dir \<longrightarrow>
          delete_image cwd w prompt_id fname = (Inl IsADirectoryError, w))
     \<and> (fst (delete_image cwd w prompt_id fname) = Inr () \<longrightarrow>
          prompts_table w' = filter (\<lambda>r. p_id r \<noteq> prompt_id) (prompts_table w)
          \<and> get_record w' prompt_id = None
          \<and> \<not> os_path_exists cwd (fs w') fname
          \<and> (\<exists>err. read_file cwd (fs w') fname = Inl err)
          \<and> load_image opener cwd (fs w') fname = Inr None
          \<and> (cwd = ''/'' @ join ''/'' ccs \<and> clean_comps ccs
               \<and> fname = ''generated_images/image_'' @ timestamp @ ''.png''
               \<and> CHR ''/'' \<notin> set timestamp \<longrightarrow>
              get_image_base64 b64encode cwd (fs w') fname = Inr None)
          \<and> (\<not> os_path_exists cwd (fs w) fname \<longrightarrow> fs w' = fs w)
          \<and> (\<forall>q. resolve cwd (fs w) fname \<noteq> Inr q \<longrightarrow> fs w' q = fs w q))"
proof (intro conjI impI allI)
  show "(fst (delete_image cwd w prompt_id fname) = Inr ())
        = (\<forall>p. resolve cwd (fs w) fname = Inr p \<longrightarrow> fs w p \<noteq> Some Dir)"
  proof (cases "resolve cwd (fs w) fname")
    case (Inl err)
    then show ?thesis by (simp add: delete_image_missing [OF Inl])
  next
    case (Inr p)
    from resolve_exists [OF Inr] obtain n where n: "fs w p = Some n" by auto
    show ?thesis
    proof (cases n)
      case Dir
      with n Inr show ?thesis by (simp add: delete_image_dir [OF Inr])
    next
      case (File b)
      with n Inr show ?thesis by (simp add: delete_image_file [OF Inr])
    qed
  qed
next
  fix p
  assume "resolve cwd (fs w) fname = Inr p \<and> fs w p = Some Dir"
  then show "delete_image cwd w prompt_id fname = (Inl IsADirectoryError, w)"
    by (simp add: delete_image_dir)
next
  assume completed: "fst (delete_image cwd w prompt_id fname) = Inr ()"
  note facts = delete_image_completed [OF completed, folded assms]
  show "prompts_table w' = filter (\<lambda>r. p_id r \<noteq> prompt_id) (prompts_table w)"
    by (rule facts(1))
  then show "get_record w' prompt_id = None"
    by (simp add: get_record_def find_filter_none)
  show gone: "\<not> os_path_exists cwd (fs w') fname"
    by (rule facts(2))
  then show "\<exists>err. read_file cwd (fs w') fname = Inl err"
    by (auto simp add: os_path_exists_def read_file_def split: sum.splits)
  show "load_image opener cwd (fs w') fname = Inr None"
    using gone by (simp add: load_image_def)
  {
    assume clean: "cwd = ''/'' @ join ''/'' ccs \<and> clean_comps ccs
               \<and> fname = ''generated_images/image_'' @ timestamp @ ''.png''
               \<and> CHR ''/'' \<notin> set timestamp"
    then have ts: "CHR ''/'' \<notin> set timestamp" by simp
    have name: "fname = join ''/'' [''generated_images'', ''image_'' @ timestamp @ ''.png'']"
      using clean saved_name_clean(1) [OF ts] by simp
    have "\<not> os_path_exists cwd (fs w') (abspath cwd fname)"
    proof
      assume "os_path_exists cwd (fs w') (abspath cwd fname)"
      from resolve_clean_absolute [OF _ _ name saved_name_clean(2) [OF ts] _ this] clean gone
      show False by simp
    qed
    then show "get_image_base64 b64encode cwd (fs w') fname = Inr None"
      by (simp add: get_image_base64_def Let_def)
  }
  {
    assume "\<not> os_path_exists cwd (fs w) fname"
    then show "fs w' = fs w" by (rule facts(3))
  }
  {
    fix q
    assume "resolve cwd (fs w) fname \<noteq> Inr q"
    then show "fs w' q = fs w q" by (rule facts(4))
  }
qed

text \<open>
  The theorem in a world with one blob and two rows: deleting row 6 with its blob leaves
  row 7 only, and the blob can no longer be read.
\<close>

theorem delete_image_removes_witness:
  "delete_image ''/app''
     \<lparr>fs = [''/'' \<mapsto> Dir, ''/app'' \<mapsto> Dir, ''/app/generated_images'' \<mapsto> Dir,
            ''/app/generated_images/image_20240101_120000.png'' \<mapsto> File ''PNG''],
      prompts_table =
        [\<lparr>p_id = 6, p_prompt = [97], p_expected_style = ''cartoon'',
          p_filename = ''generated_images/image_20240101_120000.png'',
          p_created_at = 1704110400, p_score = Some 7, p_feedback = None\<rparr>,
         \<lparr>p_id = 7, p_prompt = [98], p_expected_style = ''realistic'',
          p_filename = ''generated_images/image_20240101_120500.png'',
          p_created_at = 1704110700, p_score = None, p_feedback = None\<rparr>],
      sqlite_sequence = 7\<rparr>
     6 ''generated_images/image_20240101_120000.png''
   = (Inr (),
      \<lparr>fs = [''/'' \<mapsto> Dir, ''/app'' \<mapsto> Dir, ''/app/generated_images'' \<mapsto> Dir],
       prompts_table =
        [\<lparr>p_id = 7, p_prompt = [98], p_expected_style = ''realistic'',
          p_filename = ''generated_images/image_20240101_120500.png'',
          p_created_at = 1704110700, p_score = None, p_feedback = None\<rparr>],
       sqlite_sequence = 7\<rparr>)
   \<and> get_image_base64 (\<lambda>b. b) ''/app''
        [''/'' \<mapsto> Dir, ''/app'' \<mapsto> Dir, ''/app/generated_images'' \<mapsto> Dir]
        ''generated_images/image_20240101_120000.png'' = Inr None"
proof -
  define w where "w = \<lparr>fs = [''/'' \<mapsto> Dir, ''/app'' \<mapsto> Dir, ''/app/generated_images'' \<mapsto> Dir,
            ''/app/generated_images/image_20240101_120000.png'' \<mapsto> File ''PNG''],
      prompts_table =
        [\<lparr>p_id = 6, p_prompt = [97], p_expected_style = ''cartoon'',
          p_filename = ''generated_images/image_20240101_120000.png'',
          p_created_at = 1704110400, p_score = Some 7, p_feedback = None\<rparr>,
         \<lparr>p_id = 7, p_prompt = [98], p_expected_style = ''realistic'',
          p_filename = ''generated_images/image_20240101_120500.png'',
          p_created_at = 1704110700, p_score = None, p_feedback = None\<rparr>],
      sqlite_sequence = 7\<rparr>"
  define w' where "w' = \<lparr>fs = [''/'' \<mapsto> Dir, ''/app'' \<mapsto> Dir, ''/app/generated_images'' \<mapsto> Dir],
       prompts_table =
        [\<lparr>p_id = 7, p_prompt = [98], p_expected_style = ''realistic'',
          p_filename = ''generated_images/image_20240101_120500.png'',
          p_created_at = 1704110700, p_score = None, p_feedback = None\<rparr>],
       sqlite_sequence = 7\<rparr>"
  have res: "delete_image ''/app'' w 6 ''generated_images/image_20240101_120000.png''
      = (Inr (), w')"
    by (simp add: delete_image_def os_path_exists_def os_remove_def resolve_def startswith_def
        child_def w_def w'_def fun_eq_iff)
  then have h: "w' = snd (delete_image ''/app'' w 6 ''generated_images/image_20240101_120000.png'')"
    and ok: "fst (delete_image ''/app'' w 6 ''generated_images/image_20240101_120000.png'') = Inr ()"
    by simp_all
  have clean: "''/app'' = ''/'' @ join ''/'' [''app''] \<and> clean_comps [''app'']
      \<and> ''generated_images/image_20240101_120000.png''
          = ''generated_images/image_'' @ ''20240101_120000'' @ ''.png''
      \<and> CHR ''/'' \<notin> set ''20240101_120000''"
    by (simp add: clean_comps_def)
  from delete_image_removes [OF h, where opener = "\<lambda>b. None" and b64encode = "\<lambda>b. b"
      and ccs = "[''app'']" and timestamp = "''20240101_120000''"] ok clean
  have "get_image_base64 (\<lambda>b. b) ''/app'' (fs w')
      ''generated_images/image_20240101_120000.png'' = Inr None"
    by blast
  then have "get_image_base64 (\<lambda>b. b) ''/app''
      [''/'' \<mapsto> Dir, ''/app'' \<mapsto> Dir, ''/app/generated_images'' \<mapsto> Dir]
      ''generated_images/image_20240101_120000.png'' = Inr None"
    by (simp add: w'_def)
  with res show ?thesis unfolding w_def w'_def by (rule conjI)
qed

text \<open>
  Why the statement about \<open>get_image_base64\<close> is restricted to the names
  \<open>save_image\<close> writes: for the same blob referred to with a trailing slash, the
  operating system finds no such file, so \<open>delete_image\<close> removes nothing and deletes
  the row, while \<open>get_image_base64\<close> normalises the reference and still reads the blob.
\<close>

lemma delete_image_trailing_slash:
  "delete_image ''/app''
     \<lparr>fs = [''/'' \<mapsto> Dir, ''/app'' \<mapsto> Dir, ''/app/generated_images'' \<mapsto> Dir,
            ''/app/generated_images/image_20240101_120000.png'' \<mapsto> File ''PNG''],
      prompts_table =
        [\<lparr>p_id = 6, p_prompt = [97], p_expected_style = ''cartoon'',
          p_filename = ''generated_images/image_20240101_120000.png/'',
          p_created_at = 1704110400, p_score = Some 7, p_feedback = None\<rparr>],
      sqlite_sequence = 6\<rparr>
     6 ''generated_images/image_20240101_120000.png/''
   = (Inr (),
      \<lparr>fs = [''/'' \<mapsto> Dir, ''/app'' \<mapsto> Dir, ''/app/generated_images'' \<mapsto> Dir,
            ''/app/generated_images/image_20240101_120000.png'' \<mapsto> File ''PNG''],
       prompts_table = [], sqlite_sequence = 6\<rparr>)
   \<and> get_image_base64 (\<lambda>b. b) ''/app''
        [''/'' \<mapsto> Dir, ''/app'' \<mapsto> Dir, ''/app/generated_images'' \<mapsto> Dir,
         ''/app/generated_images/image_20240101_120000.png'' \<mapsto> File ''PNG'']
        ''generated_images/image_20240101_120000.png/'' = Inr (Some ''PNG'')
   \<and> fst (delete_image ''/app''
        \<lparr>fs = [''/'' \<mapsto> Dir, ''/app'' \<mapsto> Dir], prompts_table = [], sqlite_sequence = 0\<rparr>
        1 '''') = Inr ()"
  by (simp add: delete_image_def get_image_base64_def os_path_exists_def os_remove_def
      read_file_def resolve_def abspath_def normpath_def join_path_def startswith_def
      child_def Let_def)

section \<open>The evaluation report\<close>

lemma styles_append_map_of:
  "map_of (styles_append d k v) =
     (map_of d)(k \<mapsto> (case map_of d k of None \<Rightarrow> [] | Some vs \<Rightarrow> vs) @ [v])"
  by (induction d k v rule: styles_append.induct) (auto simp add: fun_eq_iff)

lemma styles_append_keys: "set (map fst (styles_append d k v)) = insert k (set (map fst d))"
  by (induction d k v rule: styles_append.induct) auto

lemma styles_append_distinct:
  "distinct (map fst d) \<Longrightarrow> distinct (map fst (styles_append d k v))"
proof (induction d k v rule: styles_append.induct)
  case (1 style s)
  show ?case by simp
next
  case (2 k scores styles style s)
  show ?case
  proof (cases "k = style")
    case True
    with "2.prems" show ?thesis by simp
  next
    case False
    from "2.prems" have "distinct (map fst styles)" and "k \<notin> set (map fst styles)" by simp_all
    with False "2.IH" [OF False] show ?thesis
      using styles_append_keys [of styles style s] by auto
  qed
qed

lemma styles_fold_distinct:
  "distinct (map fst d) \<Longrightarrow>
     distinct (map fst (fold (\<lambda>p styles. styles_append styles (key p) (val p)) xs d))"
  by (induction xs arbitrary: d) (simp_all add: styles_append_distinct)

lemma styles_fold_map_of:
  "map_of (fold (\<lambda>p styles. styles_append styles (key p) (val p)) xs d) s =
     (if filter (\<lambda>p. key p = s) xs = [] then map_of d s
      else Some ((case map_of d s of None \<Rightarrow> [] | Some vs \<Rightarrow> vs)
                 @ map val (filter (\<lambda>p. key p = s) xs)))"
proof (induction xs arbitrary: d)
  case Nil
  show ?case by simp
next
  case (Cons x xs)
  show ?case
    by (simp add: Cons.IH styles_append_map_of)
qed

lemma evaluation_report_None:
  "(evaluation_report prompts = None) = (\<forall>p\<in>set prompts. p_score p = None)"
  by (auto simp add: evaluation_report_def Let_def filter_empty_conv)

lemma evaluation_report_Some:
  assumes "evaluation_report prompts = Some (avg, by_style)"
  shows "avg = mean (map (\<lambda>p. the (p_score p)) (filter (\<lambda>p. p_score p \<noteq> None) prompts))"
    and "distinct (map fst by_style)"
    and "map_of by_style s =
           (if filter (\<lambda>p. p_score p \<noteq> None \<and> p_expected_style p = s) prompts = [] then None
            else Some (mean (map (\<lambda>p. the (p_score p))
                   (filter (\<lambda>p. p_score p \<noteq> None \<and> p_expected_style p = s) prompts))))"
proof -
  define ev where "ev = filter (\<lambda>p. p_score p \<noteq> None) prompts"
  define styles where
    "styles = fold (\<lambda>p styles. styles_append styles (p_expected_style p) (the (p_score p))) ev []"
  from assms have avg: "avg = mean (map (\<lambda>p. the (p_score p)) ev)"
    and bs: "by_style = map (\<lambda>(style, scores). (style, mean scores)) styles"
    by (auto simp add: evaluation_report_def Let_def ev_def styles_def split: if_splits)
  show "avg = mean (map (\<lambda>p. the (p_score p)) (filter (\<lambda>p. p_score p \<noteq> None) prompts))"
    using avg by (simp add: ev_def)
  have keys: "map fst by_style = map fst styles"
    by (simp add: bs case_prod_beta comp_def)
  have "distinct (map fst styles)"
    unfolding styles_def by (rule styles_fold_distinct) simp
  then show "distinct (map fst by_style)" by (simp add: keys)
  have f: "filter (\<lambda>p. p_expected_style p = s) ev =
      filter (\<lambda>p. p_score p \<noteq> None \<and> p_expected_style p = s) prompts"
    by (simp add: ev_def conj_commute)
  have "map_of by_style s = map_option mean (map_of styles s)"
    by (simp add: bs map_of_map)
  also have "map_of styles s =
      (if filter (\<lambda>p. p_expected_style p = s) ev = [] then None
       else Some (map (\<lambda>p. the (p_score p)) (filter (\<lambda>p. p_expected_style p = s) ev)))"
    unfolding styles_def by (simp add: styles_fold_map_of)
  finally show "map_of by_style s =
           (if filter (\<lambda>p. p_score p \<noteq> None \<and> p_expected_style p = s) prompts = [] then None
            else Some (mean (map (\<lambda>p. the (p_score p))
                   (filter (\<lambda>p. p_score p \<noteq> None \<and> p_expected_style p = s) prompts))))"
    by (simp add: f)
qed

text \<open>
  Claim C9. The report is absent exactly when no record has a score. Otherwise its
  overall average is the mean (sum divided by count) of the scores of exactly the records
  that have one, and its per-style table has one entry per style, which for a style \<open>s\<close>
  is the mean of the scores of the evaluated records of style \<open>s\<close>, and no entry when no
  evaluated record has that style. On the records (realistic, 6), (realistic, 8),
  (cartoon, 10) the overall average is 8 and the table is realistic 7, cartoon 10.
  Averages are exact real numbers here; the code computes them as floats.
\<close>

theorem evaluation_report_means:
  "(evaluation_report prompts = None) = (\<forall>p\<in>set prompts. p_score p = None)
   \<and> (\<forall>avg by_style. evaluation_report prompts = Some (avg, by_style) \<longrightarrow>
        avg = mean (map (\<lambda>p. the (p_score p)) (filter (\<lambda>p. p_score p \<noteq> None) prompts))
        \<and> distinct (map fst by_style)
        \<and> (\<forall>s. map_of by_style s =
              (if filter (\<lambda>p. p_score p \<noteq> None \<and> p_expected_style p = s) prompts = [] then None
               else Some (mean (map (\<lambda>p. the (p_score p))
                      (filter (\<lambda>p. p_score p \<noteq> None \<and> p_expected_style p = s) prompts))))))
   \<and> evaluation_report
        [\<lparr>p_id = 1, p_prompt = [], p_expected_style = ''realistic'', p_filename = [],
          p_created_at = 0, p_score = Some 6, p_feedback = None\<rparr>,
         \<lparr>p_id = 2, p_prompt = [], p_expected_style = ''realistic'', p_filename = [],
          p_created_at = 0, p_score = Some 8, p_feedback = None\<rparr>,
         \<lparr>p_id = 3, p_prompt = [], p_expected_style = ''cartoon'', p_filename = [],
          p_created_at = 0, p_score = Some 10, p_feedback = None\<rparr>]
       = Some (8, [(''realistic'', 7), (''cartoon'', 10)])"
proof (intro conjI allI impI)
  show "(evaluation_report prompts = None) = (\<forall>p\<in>set prompts. p_score p = None)"
    by (rule evaluation_report_None)
next
  fix avg by_style s
  assume r: "evaluation_report prompts = Some (avg, by_style)"
  show "avg = mean (map (\<lambda>p. the (p_score p)) (filter (\<lambda>p. p_score p \<noteq> None) prompts))"
    by (rule evaluation_report_Some(1) [OF r])
  show "distinct (map fst by_style)"
    by (rule evaluation_report_Some(2) [OF r])
  show "map_of by_style s =
      (if filter (\<lambda>p. p_score p \<noteq> None \<and> p_expected_style p = s) prompts = [] then None
       else Some (mean (map (\<lambda>p. the (p_score p))
              (filter (\<lambda>p. p_score p \<noteq> None \<and> p_expected_style p = s) prompts))))"
    by (rule evaluation_report_Some(3) [OF r])
next
  show "evaluation_report
        [\<lparr>p_id = 1, p_prompt = [], p_expected_style = ''realistic'', p_filename = [],
          p_created_at = 0, p_score = Some 6, p_feedback = None\<rparr>,
         \<lparr>p_id = 2, p_prompt = [], p_expected_style = ''realistic'', p_filename = [],
          p_created_at = 0, p_score = Some 8, p_feedback = None\<rparr>,
         \<lparr>p_id = 3, p_prompt = [], p_expected_style = ''cartoon'', p_filename = [],
          p_created_at = 0, p_score = Some 10, p_feedback = None\<rparr>]
       = Some (8, [(''realistic'', 7), (''cartoon'', 10)])"
    by (simp add: evaluation_report_def mean_def Let_def)
qed

text \<open>
  The theorem on four records, one of them (cyberpunk) without a score: the report exists,
  the overall average is (6 + 9 + 10) / 3, cartoon averages 19 / 2 and cyberpunk has no
  entry.
\<close>

theorem evaluation_report_means_witness:
  "evaluation_report
     [\<lparr>p_id = 4, p_prompt = [], p_expected_style = ''cyberpunk'', p_filename = [],
       p_created_at = 3, p_score = None, p_feedback = None\<rparr>,
      \<lparr>p_id = 3, p_prompt = [], p_expected_style = ''cartoon'', p_filename = [],
       p_created_at = 2, p_score = Some 10, p_feedback = None\<rparr>,
      \<lparr>p_id = 2, p_prompt = [], p_expected_style = ''realistic'', p_filename = [],
       p_created_at = 1, p_score = Some 6, p_feedback = None\<rparr>,
      \<lparr>p_id = 1, p_prompt = [], p_expected_style = ''cartoon'', p_filename = [],
       p_created_at = 0, p_score = Some 9, p_feedback = None\<rparr>]
     = Some (25 / 3, [(''cartoon'', 19 / 2), (''realistic'', 6)])
   \<and> map_of [(''cartoon'', 19 / 2 :: real), (''realistic'', 6)] ''cartoon'' = Some (19 / 2)
   \<and> map_of [(''cartoon'', 19 / 2 :: real), (''realistic'', 6)] ''cyberpunk'' = None"
proof -
  define prompts where "prompts =
     [\<lparr>p_id = 4, p_prompt = [], p_expected_style = ''cyberpunk'', p_filename = [],
       p_created_at = 3, p_score = None, p_feedback = None\<rparr>,
      \<lparr>p_id = 3, p_prompt = [], p_expected_style = ''cartoon'', p_filename = [],
       p_created_at = 2, p_score = Some 10, p_feedback = None\<rparr>,
      \<lparr>p_id = 2, p_prompt = [], p_expected_style = ''realistic'', p_filename = [],
       p_created_at = 1, p_score = Some 6, p_feedback = None\<rparr>,
      \<lparr>p_id = 1, p_prompt = [], p_expected_style = ''cartoon'', p_filename = [],
       p_created_at = 0, p_score = Some 9, p_feedback = None\<rparr>]"
  have r: "evaluation_report prompts = Some (25 / 3, [(''cartoon'', 19 / 2), (''realistic'', 6)])"
    by (simp add: evaluation_report_def mean_def Let_def prompts_def)
  from evaluation_report_means [of prompts] r
  have m: "\<forall>s. map_of [(''cartoon'', 19 / 2 :: real), (''realistic'', 6)] s =
      (if filter (\<lambda>p. p_score p \<noteq> None \<and> p_expected_style p = s) prompts = [] then None
       else Some (mean (map (\<lambda>p. the (p_score p))
              (filter (\<lambda>p. p_score p \<noteq> None \<and> p_expected_style p = s) prompts))))"
    by blast
  have c: "map_of [(''cartoon'', 19 / 2 :: real), (''realistic'', 6)] ''cartoon'' = Some (19 / 2)"
    using m [rule_format, of "''cartoon''"] by (simp add: prompts_def mean_def)
  have k: "map_of [(''cartoon'', 19 / 2 :: real), (''realistic'', 6)] ''cyberpunk'' = None"
    using m [rule_format, of "''cyberpunk''"] by (simp add: prompts_def)
  from r c k show ?thesis unfolding prompts_def by (intro conjI)
qed

end
